theory Spec2Isabelle
  imports Complex_Main
begin

section \<open>Python values used by the pipeline\<close>

subsection \<open>Strings\<close>

text \<open>
  Python \<^verbatim>\<open>str\<close> values are modelled as \<^typ>\<open>string\<close>. The campaign texts and the
  prohibited terms are taken to be ASCII: \<^verbatim>\<open>str.lower()\<close> maps \<^verbatim>\<open>A\<close>..\<^verbatim>\<open>Z\<close> to
  \<^verbatim>\<open>a\<close>..\<^verbatim>\<open>z\<close> and leaves every other character alone, and the regular
  expression class \<^verbatim>\<open>\w\<close> is letters, digits and the underscore.
\<close>

definition ascii_uppercase :: string where
  "ascii_uppercase = ''ABCDEFGHIJKLMNOPQRSTUVWXYZ''"

definition ascii_lowercase :: string where
  "ascii_lowercase = ''abcdefghijklmnopqrstuvwxyz''"

definition ascii_digits :: string where
  "ascii_digits = ''0123456789''"

definition lower_char :: "char \<Rightarrow> char" where
  "lower_char c =
     (case map_of (zip ascii_uppercase ascii_lowercase) c of Some d \<Rightarrow> d | None \<Rightarrow> c)"

definition lower :: "string \<Rightarrow> string" where
  "lower s = map lower_char s"

definition is_word_char :: "char \<Rightarrow> bool" where
  "is_word_char c = (c \<in> set (ascii_uppercase @ ascii_lowercase @ ascii_digits @ ''_''))"

text \<open>\<^verbatim>\<open>str(n)\<close> for a length (a natural number), as the f-strings print it.\<close>

fun str_nat :: "nat \<Rightarrow> string" where
  "str_nat n =
     (if n < 10 then [ascii_digits ! n] else str_nat (n div 10) @ [ascii_digits ! (n mod 10)])"

text \<open>\<^verbatim>\<open>sep.join(parts)\<close>.\<close>

fun join :: "string \<Rightarrow> string list \<Rightarrow> string" where
  "join sep [] = []"
| "join sep [p] = p"
| "join sep (p # q # ps) = p @ sep @ join sep (q # ps)"

subsection \<open>The regular expressions the checker builds\<close>

text \<open>
  \<^verbatim>\<open>check_legal_compliance\<close> only ever builds the pattern
  \<^verbatim>\<open>r'\b' + re.escape(word.lower()) + r'\b'\<close>: a word-boundary assertion, the characters
  of the term as literals (that is what \<^verbatim>\<open>re.escape\<close> is for), and another word-boundary
  assertion. A pattern is therefore a list of such items. \<^verbatim>\<open>\b\<close> holds at a position
  where exactly one of the two neighbouring characters is a \<^verbatim>\<open>\w\<close> character, the
  ends of the text counting as non-word characters.

  \<open>re_match r prev s\<close> matches \<open>r\<close> at the current position, \<open>s\<close> being the rest of the
  text and \<open>prev\<close> the character just before it; \<open>re_search\<close> tries every position from
  left to right, as \<^verbatim>\<open>re.search\<close> does.
\<close>

datatype re_item = WordBoundary | Literal char

definition is_word_opt :: "char option \<Rightarrow> bool" where
  "is_word_opt c = (case c of None \<Rightarrow> False | Some d \<Rightarrow> is_word_char d)"

fun head_opt :: "string \<Rightarrow> char option" where
  "head_opt [] = None"
| "head_opt (c # s) = Some c"

fun re_match :: "re_item list \<Rightarrow> char option \<Rightarrow> string \<Rightarrow> bool" where
  "re_match [] prev s = True"
| "re_match (WordBoundary # r) prev s =
     (is_word_opt prev \<noteq> is_word_opt (head_opt s) \<and> re_match r prev s)"
| "re_match (Literal c # r) prev [] = False"
| "re_match (Literal c # r) prev (d # s) = (c = d \<and> re_match r (Some d) s)"

fun re_search_from :: "re_item list \<Rightarrow> char option \<Rightarrow> string \<Rightarrow> bool" where
  "re_search_from r prev [] = re_match r prev []"
| "re_search_from r prev (c # s) = (re_match r prev (c # s) \<or> re_search_from r (Some c) s)"

definition re_search :: "re_item list \<Rightarrow> string \<Rightarrow> bool" where
  "re_search r s = re_search_from r None s"

definition re_escape :: "string \<Rightarrow> re_item list" where
  "re_escape s = map Literal s"

subsection \<open>Floats\<close>

text \<open>
  A Python \<^verbatim>\<open>float\<close> is an IEEE 754 binary64 number. It is modelled by the real number it
  denotes, and every floating-point operation computes the exact result and rounds it with
  \<open>fl\<close>: to the nearest number with a 53-bit significand, ties to the even significand.
  \<open>exponent x\<close> is \<open>\<lfloor>log\<^sub>2 x\<rfloor>\<close>, computed from bit lengths. The exponent range is not
  modelled: every value below is a product or quotient of image sides (below \<open>2\<^sup>3\<^sup>1\<close>,
  the largest side the imaging library stores) and of constants between \<open>1 / 1000\<close> and
  \<open>255\<close>, far from overflow and underflow.
\<close>

definition round_half_even :: "real \<Rightarrow> int" where
  "round_half_even x =
     (let n = \<lfloor>x\<rfloor>; r = x - of_int n
      in if r < 1 / 2 then n else if 1 / 2 < r then n + 1 else if even n then n else n + 1)"

fun bit_length :: "nat \<Rightarrow> nat" where
  "bit_length n = (if n = 0 then 0 else Suc (bit_length (n div 2)))"

declare bit_length.simps [simp del]

definition exponent :: "real \<Rightarrow> int" where
  "exponent x =
     (if 1 \<le> x then int (bit_length (nat \<lfloor>x\<rfloor>)) - 1
      else - int (bit_length (nat (\<lceil>1 / x\<rceil> - 1))))"

definition ulp_of :: "real \<Rightarrow> real" where
  "ulp_of x = 2 powi (exponent \<bar>x\<bar> - 52)"

definition fl :: "real \<Rightarrow> real" where
  "fl x = (if x = 0 then 0 else sgn x * of_int (round_half_even (\<bar>x\<bar> / ulp_of x)) * ulp_of x)"

text \<open>The numbers \<open>fl\<close> leaves alone: a significand of at most 53 bits times a power of two.\<close>

definition representable :: "real \<Rightarrow> bool" where
  "representable x = (\<exists>m e. \<bar>m\<bar> < 2 ^ 53 \<and> x = of_int m * 2 powi e)"

text \<open>
  A decimal literal such as \<^verbatim>\<open>0.3\<close> denotes the float nearest to it; \<^verbatim>\<open>float(n)\<close>, which
  Python applies to an \<^verbatim>\<open>int\<close> operand of a mixed operation, is the float nearest to
  \<open>n\<close>; \<^verbatim>\<open>a / b\<close> on two \<^verbatim>\<open>int\<close>s is the correctly rounded quotient; \<^verbatim>\<open>int(x)\<close>
  truncates towards zero. Division by zero is raised by the callers below, which test the
  divisor first.
\<close>

definition float_lit :: "real \<Rightarrow> real" where
  "float_lit x = fl x"

definition float_of_int :: "int \<Rightarrow> real" where
  "float_of_int n = fl (of_int n)"

definition int_truediv :: "int \<Rightarrow> int \<Rightarrow> real" where
  "int_truediv a b = fl (of_int a / of_int b)"

definition fadd :: "real \<Rightarrow> real \<Rightarrow> real" where
  "fadd x y = fl (x + y)"

definition fsub :: "real \<Rightarrow> real \<Rightarrow> real" where
  "fsub x y = fl (x - y)"

definition fmul :: "real \<Rightarrow> real \<Rightarrow> real" where
  "fmul x y = fl (x * y)"

definition fdiv :: "real \<Rightarrow> real \<Rightarrow> real" where
  "fdiv x y = fl (x / y)"

definition py_int :: "real \<Rightarrow> int" where
  "py_int x = (if 0 \<le> x then \<lfloor>x\<rfloor> else \<lceil>x\<rceil>)"

subsection \<open>Exceptions\<close>

text \<open>
  The exceptions that can leave the functions below; a function that can raise returns
  \<open>error + 'a\<close>. \<open>OSError\<close> stands for a file that exists but cannot be decoded as an
  image, \<open>LibraryError\<close> for an exception of the clustering or template-matching
  library.
\<close>

datatype error =
    ValueError string
  | ZeroDivisionError
  | OSError
  | LibraryError

section \<open>Images and the imaging library\<close>

text \<open>
  An image buffer is a grid of pixels of a given size and colour mode; a pixel holds four
  channel values (a grey-scale image uses the first, an image without alpha ignores the
  last). The functions of the imaging library that the pipeline calls are modelled after
  the library's documentation: \<^verbatim>\<open>Image.new\<close>, \<^verbatim>\<open>Image.crop\<close> (which refuses a box whose
  right or lower edge lies before its left or upper edge, and fills what lies outside the
  source with zeros), \<^verbatim>\<open>Image.convert\<close>, \<^verbatim>\<open>Image.alpha_composite\<close> (which refuses two
  images of different size or not both \<^verbatim>\<open>RGBA\<close>), \<^verbatim>\<open>ImageDraw.rectangle\<close> (which
  refuses an inverted rectangle), \<^verbatim>\<open>ImageDraw.multiline_text\<close> and
  \<^verbatim>\<open>ImageStat.Stat(...).mean\<close> (sum of the values over their count, which divides by
  zero on an image without pixels).
\<close>

datatype mode = L | RGB | RGBA

type_synonym pixel = "int \<times> int \<times> int \<times> int"

type_synonym box = "int \<times> int \<times> int \<times> int"

record image =
  im_size :: "int \<times> int"
  im_mode :: mode
  im_data :: "int \<Rightarrow> int \<Rightarrow> pixel"

text \<open>
  A font object, as far as the compositor uses it: the bounding box of one line of text and
  of a block of lines drawn at the origin, and the pixels that a block of text inks,
  relative to the point it is drawn at.
\<close>

record font =
  textbbox :: "string \<Rightarrow> box"
  multiline_textbbox :: "string \<Rightarrow> box"
  text_mask :: "string \<Rightarrow> int \<Rightarrow> int \<Rightarrow> bool"

text \<open>
  What the installation and the library's compiled core decide: which font files load
  (\<open>None\<close> is the \<^verbatim>\<open>OSError\<close> of \<^verbatim>\<open>ImageFont.truetype\<close>), the built-in font, the colour
  a colour string denotes (\<open>None\<close> is the \<^verbatim>\<open>ValueError\<close> of an unknown colour), how one
  pixel is converted from one mode to another, and how one pixel is composited over
  another.
\<close>

record pil =
  truetype :: "string \<Rightarrow> int \<Rightarrow> font option"
  load_default :: font
  getrgb :: "string \<Rightarrow> pixel option"
  convert_pixel :: "mode \<Rightarrow> mode \<Rightarrow> pixel \<Rightarrow> pixel"
  composite_pixel :: "pixel \<Rightarrow> pixel \<Rightarrow> pixel"

definition in_image :: "image \<Rightarrow> int \<Rightarrow> int \<Rightarrow> bool" where
  "in_image im x y = (0 \<le> x \<and> x < fst (im_size im) \<and> 0 \<le> y \<and> y < snd (im_size im))"

definition new_image :: "mode \<Rightarrow> int \<times> int \<Rightarrow> pixel \<Rightarrow> image" where
  "new_image m sz color = \<lparr>im_size = sz, im_mode = m, im_data = (\<lambda>x y. color)\<rparr>"

definition crop :: "image \<Rightarrow> box \<Rightarrow> error + image" where
  "crop im b =
     (case b of (left, upper, right, lower') \<Rightarrow>
        if right < left then
          Inl (ValueError (''Coordinate '' @ [CHR 0x27] @ ''right'' @ [CHR 0x27] @
                           '' is less than '' @ [CHR 0x27] @ ''left'' @ [CHR 0x27]))
        else if lower' < upper then
          Inl (ValueError (''Coordinate '' @ [CHR 0x27] @ ''lower'' @ [CHR 0x27] @
                           '' is less than '' @ [CHR 0x27] @ ''upper'' @ [CHR 0x27]))
        else
          Inr \<lparr>im_size = (right - left, lower' - upper),
               im_mode = im_mode im,
               im_data = (\<lambda>x y. if in_image im (left + x) (upper + y)
                                   then im_data im (left + x) (upper + y) else (0, 0, 0, 0))\<rparr>)"

definition convert :: "pil \<Rightarrow> image \<Rightarrow> mode \<Rightarrow> image" where
  "convert env im m =
     \<lparr>im_size = im_size im, im_mode = m,
      im_data = (\<lambda>x y. convert_pixel env (im_mode im) m (im_data im x y))\<rparr>"

definition alpha_composite :: "pil \<Rightarrow> image \<Rightarrow> image \<Rightarrow> error + image" where
  "alpha_composite env im1 im2 =
     (if im_mode im1 \<noteq> RGBA \<or> im_mode im2 \<noteq> RGBA \<or> im_size im1 \<noteq> im_size im2
      then Inl (ValueError ''images do not match'')
      else Inr \<lparr>im_size = im_size im1, im_mode = RGBA,
                im_data = (\<lambda>x y. composite_pixel env (im_data im1 x y) (im_data im2 x y))\<rparr>)"

definition rectangle :: "image \<Rightarrow> box \<Rightarrow> pixel \<Rightarrow> error + image" where
  "rectangle im b fill =
     (case b of (x0, y0, x1, y1) \<Rightarrow>
        if x1 < x0 then Inl (ValueError ''x1 must be greater than or equal to x0'')
        else if y1 < y0 then Inl (ValueError ''y1 must be greater than or equal to y0'')
        else Inr (im\<lparr>im_data := (\<lambda>x y. if x0 \<le> x \<and> x \<le> x1 \<and> y0 \<le> y \<and> y \<le> y1
                                          then fill else im_data im x y)\<rparr>))"

definition multiline_text :: "image \<Rightarrow> int \<times> int \<Rightarrow> string \<Rightarrow> font \<Rightarrow> pixel \<Rightarrow> image" where
  "multiline_text im xy txt fnt fill =
     im\<lparr>im_data := (\<lambda>x y. if text_mask fnt txt (x - fst xy) (y - snd xy)
                            then fill else im_data im x y)\<rparr>"

definition stat_mean :: "image \<Rightarrow> error + real" where
  "stat_mean im =
     (let (w, h) = im_size im;
          total = (\<Sum>y \<leftarrow> [0..h - 1]. \<Sum>x \<leftarrow> [0..w - 1]. fst (im_data im x y));
          count = (if 0 < w \<and> 0 < h then w * h else 0)
      in if count = 0 then Inl ZeroDivisionError
         else Inr (fdiv (float_of_int total) (float_of_int count)))"

text \<open>
  Image objects are mutable and passed by reference: drawing on an image changes the
  buffer every holder of the reference sees. The overlay functions therefore run on a
  heap of image buffers, a reference being an index into it; \<^verbatim>\<open>copy\<close>, \<^verbatim>\<open>new\<close>,
  \<^verbatim>\<open>convert\<close> and \<^verbatim>\<open>alpha_composite\<close> allocate a fresh buffer, drawing updates one in
  place.
\<close>

type_synonym heap = "image list"

definition alloc :: "heap \<Rightarrow> image \<Rightarrow> heap \<times> nat" where
  "alloc hp im = (hp @ [im], length hp)"

section \<open>The image compositor\<close>

text \<open>The fields of an \<^verbatim>\<open>ImageCompositor\<close>, set by its constructor.\<close>

record compositor =
  font_family :: string
  base_font_size :: int
  text_color :: string
  text_position :: string
  padding :: int
  background_opacity :: real

text \<open>The constructor's default arguments.\<close>

definition default_compositor :: compositor where
  "default_compositor =
     \<lparr>font_family = ''Arial'', base_font_size = 48, text_color = ''#FFFFFF'',
      text_position = ''bottom'', padding = 20, background_opacity = float_lit (6 / 10)\<rparr>"

text \<open>The class attribute \<^verbatim>\<open>ASPECT_RATIOS\<close>, a dictionary in the order it is written.\<close>

definition ASPECT_RATIOS :: "(string \<times> real) list" where
  "ASPECT_RATIOS =
     [(''1:1'', float_lit 1), (''9:16'', int_truediv 9 16), (''16:9'', int_truediv 16 9)]"

text \<open>
  The nominal value of each supported ratio, as the exact quotient its name denotes; the
  table above holds the floats nearest to these.
\<close>

definition nominal_ratio :: "string \<Rightarrow> real" where
  "nominal_ratio r =
     (case map_of [(''1:1'', 1), (''9:16'', 9 / 16), (''16:9'', 16 / 9)] r of
        Some n \<Rightarrow> n | None \<Rightarrow> 0)"

subsection \<open>Cropping\<close>

text \<open>
  \<^verbatim>\<open>_smart_crop\<close> in three steps: the size of the crop (lines 84 to 95 of
  \<^verbatim>\<open>image_compositor.py\<close>), the crop box (lines 97 to 116) and the crop itself.
\<close>

definition smart_crop_size :: "int \<Rightarrow> int \<Rightarrow> real \<Rightarrow> error + int \<times> int" where
  "smart_crop_size img_width img_height target_ratio =
     (if img_height = 0 then Inl ZeroDivisionError
      else
        let current_ratio = int_truediv img_width img_height
        in if current_ratio > target_ratio then
             Inr (py_int (fmul (float_of_int img_height) target_ratio), img_height)
           else if target_ratio = 0 then Inl ZeroDivisionError
           else Inr (img_width, py_int (fdiv (float_of_int img_width) target_ratio)))"

definition smart_crop_box :: "int \<Rightarrow> int \<Rightarrow> int \<Rightarrow> int \<Rightarrow> string \<Rightarrow> box" where
  "smart_crop_box img_width img_height new_width new_height ratio_str =
     (let (left, top') =
            (if ratio_str = ''1:1'' then
               ((img_width - new_width) div 2, (img_height - new_height) div 2)
             else if ratio_str = ''9:16'' then
               ((img_width - new_width) div 2,
                py_int (fmul (float_of_int (img_height - new_height)) (float_lit (3 / 10))))
             else if ratio_str = ''16:9'' then
               ((img_width - new_width) div 2, (img_height - new_height) div 2)
             else
               ((img_width - new_width) div 2, (img_height - new_height) div 2));
          right = left + new_width;
          bottom = top' + new_height
      in (left, top', right, bottom))"

definition smart_crop :: "image \<Rightarrow> real \<Rightarrow> string \<Rightarrow> error + image" where
  "smart_crop img target_ratio ratio_str =
     (let (img_width, img_height) = im_size img
      in case smart_crop_size img_width img_height target_ratio of
           Inl e \<Rightarrow> Inl e
         | Inr (new_width, new_height) \<Rightarrow>
             crop img (smart_crop_box img_width img_height new_width new_height ratio_str))"

text \<open>
  \<^verbatim>\<open>create_variants\<close>: the loop over the requested ratios, \<open>variants\<close> being the
  dictionary built so far. The first unsupported name raises, and the dictionary is lost
  with the call.
\<close>

fun create_variants_loop ::
  "image \<Rightarrow> string list \<Rightarrow> (string \<rightharpoonup> image) \<Rightarrow> error + (string \<rightharpoonup> image)" where
  "create_variants_loop base_image [] variants = Inr variants"
| "create_variants_loop base_image (ratio_str # rest) variants =
     (case map_of ASPECT_RATIOS ratio_str of
        None \<Rightarrow> Inl (ValueError (''Unsupported aspect ratio: '' @ ratio_str))
      | Some target_ratio \<Rightarrow>
          (case smart_crop base_image target_ratio ratio_str of
             Inl e \<Rightarrow> Inl e
           | Inr cropped \<Rightarrow>
               create_variants_loop base_image rest (variants(ratio_str \<mapsto> cropped))))"

definition create_variants :: "image \<Rightarrow> string list option \<Rightarrow> error + (string \<rightharpoonup> image)" where
  "create_variants base_image aspect_ratios =
     create_variants_loop base_image
       (case aspect_ratios of None \<Rightarrow> map fst ASPECT_RATIOS | Some rs \<Rightarrow> rs) Map.empty"

subsection \<open>Font size, fonts and wrapping\<close>

definition calculate_font_size :: "compositor \<Rightarrow> int \<Rightarrow> int \<Rightarrow> int" where
  "calculate_font_size cfg img_width img_height =
     (let scale_factor = fdiv (float_of_int img_height) (float_lit 1000);
          scaled_size = py_int (fmul (float_of_int (base_font_size cfg)) scale_factor)
      in max 20 (min scaled_size 120))"

definition common_fonts :: "string list" where
  "common_fonts =
     [''/System/Library/Fonts/Helvetica.ttc'',
      ''/usr/share/fonts/truetype/dejavu/DejaVuSans.ttf'',
      ''C:'' @ [CHR 0x5C] @ ''Windows'' @ [CHR 0x5C] @ ''Fonts'' @ [CHR 0x5C] @ ''arial.ttf'',
      ''Arial.ttf'',
      ''Helvetica.ttf'']"

fun first_font :: "pil \<Rightarrow> string list \<Rightarrow> int \<Rightarrow> font option" where
  "first_font env [] font_size = None"
| "first_font env (font_path # rest) font_size =
     (case truetype env font_path font_size of
        Some fnt \<Rightarrow> Some fnt
      | None \<Rightarrow> first_font env rest font_size)"

definition load_font :: "pil \<Rightarrow> compositor \<Rightarrow> int \<Rightarrow> font" where
  "load_font env cfg font_size =
     (case truetype env (font_family cfg) font_size of
        Some fnt \<Rightarrow> fnt
      | None \<Rightarrow>
          (case first_font env common_fonts font_size of
             Some fnt \<Rightarrow> fnt
           | None \<Rightarrow> load_default env))"

text \<open>\<^verbatim>\<open>text.split()\<close>: the maximal runs of characters that are not white space.\<close>

definition is_space :: "char \<Rightarrow> bool" where
  "is_space c =
     (c \<in> set [CHR '' '', CHR 0x09, CHR 0x0A, CHR 0x0B, CHR 0x0C, CHR 0x0D,
               CHR 0x1C, CHR 0x1D, CHR 0x1E, CHR 0x1F])"

fun split_from :: "string \<Rightarrow> string \<Rightarrow> string list" where
  "split_from cur [] = (if cur = [] then [] else [cur])"
| "split_from cur (c # s) =
     (if is_space c then (if cur = [] then split_from [] s else cur # split_from [] s)
      else split_from (cur @ [c]) s)"

definition split :: "string \<Rightarrow> string list" where
  "split s = split_from [] s"

fun wrap_loop :: "font \<Rightarrow> int \<Rightarrow> string list \<Rightarrow> string list \<Rightarrow> string list \<Rightarrow> string list" where
  "wrap_loop fnt max_width [] lines current_line =
     (if current_line \<noteq> [] then lines @ [join '' '' current_line] else lines)"
| "wrap_loop fnt max_width (word # rest) lines current_line =
     (let test_line = join '' '' (current_line @ [word]);
          (x0, y0, x1, y1) = textbbox fnt test_line;
          width = x1 - x0
      in if width \<le> max_width then wrap_loop fnt max_width rest lines (current_line @ [word])
         else wrap_loop fnt max_width rest
                (if current_line \<noteq> [] then lines @ [join '' '' current_line] else lines)
                [word])"

definition wrap_text :: "string \<Rightarrow> font \<Rightarrow> int \<Rightarrow> string" where
  "wrap_text txt fnt max_width = join [CHR 0x0A] (wrap_loop fnt max_width (split txt) [] [])"

subsection \<open>Contrast\<close>

definition ensure_contrast :: "pil \<Rightarrow> compositor \<Rightarrow> image \<Rightarrow> box \<Rightarrow> error + real" where
  "ensure_contrast env cfg img text_region =
     (case crop img text_region of
        Inl e \<Rightarrow> Inl e
      | Inr region \<Rightarrow>
          let region = (if im_mode region \<noteq> L then convert env region L else region)
          in case stat_mean region of
               Inl e \<Rightarrow> Inl e
             | Inr avg_brightness \<Rightarrow>
                 Inr (if avg_brightness > 180 then
                        min (fadd (background_opacity cfg) (float_lit (3 / 10))) (float_lit (9 / 10))
                      else if avg_brightness > 120 then
                        min (fadd (background_opacity cfg) (float_lit (15 / 100))) (float_lit (8 / 10))
                      else if avg_brightness < 60 then
                        max (fsub (background_opacity cfg) (float_lit (2 / 10))) (float_lit (3 / 10))
                      else background_opacity cfg))"

subsection \<open>Text overlays\<close>

text \<open>
  Both overlay functions take the heap and a reference to the input image and return the
  heap after the call with either the exception raised or the reference to the result.
  What the two functions share up to the position of the text is \<open>overlay_layout\<close>
  (lines 137 to 166, and again 351 to 380): it copies the input and returns the heap, the
  copy, its size, the font, the wrapped text, the size of the text block and its position.
\<close>

definition text_y_of :: "compositor \<Rightarrow> string \<Rightarrow> int \<Rightarrow> int \<Rightarrow> int" where
  "text_y_of cfg pos img_height text_height =
     (if pos = ''bottom'' then img_height - text_height - padding cfg * 2
      else if pos = ''top'' then padding cfg * 2
      else (img_height - text_height) div 2)"

definition overlay_layout ::
  "pil \<Rightarrow> compositor \<Rightarrow> heap \<Rightarrow> nat \<Rightarrow> string \<Rightarrow> string option \<Rightarrow>
     heap \<times> nat \<times> (int \<times> int) \<times> font \<times> string \<times> (int \<times> int) \<times> (int \<times> int)" where
  "overlay_layout env cfg hp img txt position =
     (let (hp, img_copy) = alloc hp (hp ! img);
          pos = (case position of
                   None \<Rightarrow> text_position cfg
                 | Some p \<Rightarrow> if p \<noteq> [] then p else text_position cfg);
          (img_width, img_height) = im_size (hp ! img_copy);
          scaled_font_size = calculate_font_size cfg img_width img_height;
          fnt = load_font env cfg scaled_font_size;
          wrapped_text = wrap_text txt fnt (img_width - padding cfg * 2);
          (x0, y0, x1, y1) = multiline_textbbox fnt wrapped_text;
          text_width = x1 - x0;
          text_height = y1 - y0;
          text_x = (img_width - text_width) div 2;
          text_y = text_y_of cfg pos img_height text_height
      in (hp, img_copy, (img_width, img_height), fnt, wrapped_text,
          (text_width, text_height), (text_x, text_y)))"

text \<open>
  And what they share from the transparent overlay on (lines 168 to 200, and again 394 to
  425), given the opacity of the panel.
\<close>

definition overlay_render ::
  "pil \<Rightarrow> compositor \<Rightarrow> heap \<Rightarrow> nat \<Rightarrow> font \<Rightarrow> string \<Rightarrow> int \<times> int \<Rightarrow> int \<times> int \<Rightarrow> real \<Rightarrow>
     heap \<times> (error + nat)" where
  "overlay_render env cfg hp img_copy fnt wrapped_text text_size text_xy opacity =
     (let (text_width, text_height) = text_size;
          (text_x, text_y) = text_xy;
          (hp, overlay) = alloc hp (new_image RGBA (im_size (hp ! img_copy)) (0, 0, 0, 0));
          bg_padding = padding cfg;
          bg_left = text_x - bg_padding;
          bg_top = text_y - bg_padding;
          bg_right = text_x + text_width + bg_padding;
          bg_bottom = text_y + text_height + bg_padding;
          bg_alpha = py_int (fmul opacity (float_of_int 255))
      in case rectangle (hp ! overlay) (bg_left, bg_top, bg_right, bg_bottom) (0, 0, 0, bg_alpha) of
           Inl e \<Rightarrow> (hp, Inl e)
         | Inr drawn \<Rightarrow>
             let hp = hp[overlay := drawn];
                 (hp, img_copy) =
                   (if im_mode (hp ! img_copy) \<noteq> RGBA
                    then alloc hp (convert env (hp ! img_copy) RGBA) else (hp, img_copy))
             in case alpha_composite env (hp ! img_copy) (hp ! overlay) of
                  Inl e \<Rightarrow> (hp, Inl e)
                | Inr composed \<Rightarrow>
                    let (hp, img_copy) = alloc hp composed
                    in case getrgb env (text_color cfg) of
                         None \<Rightarrow> (hp, Inl (ValueError (''unknown color specifier: '' @ text_color cfg)))
                       | Some fill \<Rightarrow>
                           (hp[img_copy := multiline_text (hp ! img_copy) (text_x, text_y)
                                             wrapped_text fnt fill],
                            Inr img_copy))"

definition add_text_overlay ::
  "pil \<Rightarrow> compositor \<Rightarrow> heap \<Rightarrow> nat \<Rightarrow> string \<Rightarrow> string option \<Rightarrow> heap \<times> (error + nat)" where
  "add_text_overlay env cfg hp img txt position =
     (case overlay_layout env cfg hp img txt position of
        (hp, img_copy, img_size, fnt, wrapped_text, text_size, text_xy) \<Rightarrow>
          overlay_render env cfg hp img_copy fnt wrapped_text text_size text_xy
            (background_opacity cfg))"

definition add_text_overlay_with_contrast ::
  "pil \<Rightarrow> compositor \<Rightarrow> heap \<Rightarrow> nat \<Rightarrow> string \<Rightarrow> string option \<Rightarrow> heap \<times> (error + nat)" where
  "add_text_overlay_with_contrast env cfg hp img txt position =
     (case overlay_layout env cfg hp img txt position of
        (hp, img_copy, (img_width, img_height), fnt, wrapped_text,
         (text_width, text_height), (text_x, text_y)) \<Rightarrow>
          let bg_padding = padding cfg;
              text_region =
                (max 0 (text_x - bg_padding),
                 max 0 (text_y - bg_padding),
                 min img_width (text_x + text_width + bg_padding),
                 min img_height (text_y + text_height + bg_padding))
          in case ensure_contrast env cfg (hp ! img_copy) text_region of
               Inl e \<Rightarrow> (hp, Inl e)
             | Inr adjusted_opacity \<Rightarrow>
                 overlay_render env cfg hp img_copy fnt wrapped_text
                   (text_width, text_height) (text_x, text_y) adjusted_opacity)"

section \<open>Data model\<close>

text \<open>\<^verbatim>\<open>ComplianceResult\<close> of \<^verbatim>\<open>src/models.py\<close>.\<close>

record compliance_result =
  passed :: bool
  details :: string
  violations :: "string list"

text \<open>
  \<^verbatim>\<open>LegalConfig\<close>: the constructor replaces a missing list by \<^verbatim>\<open>[]\<close> and a missing
  dictionary by \<^verbatim>\<open>{}\<close>.
\<close>

record legal_config =
  prohibited_words :: "string list"
  severity_levels :: "string \<rightharpoonup> string"

section \<open>Legal compliance\<close>

text \<open>The violation message of one matched term, with its severity looked up
  (\<^verbatim>\<open>severity_levels.get(word, "warning")\<close>).\<close>

definition violation_msg :: "legal_config \<Rightarrow> string \<Rightarrow> string" where
  "violation_msg cfg word =
     (let severity = (case severity_levels cfg word of Some s \<Rightarrow> s | None \<Rightarrow> ''warning'')
      in ''Prohibited word '' @ [CHR 0x27] @ word @ [CHR 0x27] @
         '' found (severity: '' @ severity @ '')'')"

definition word_pattern :: "string \<Rightarrow> re_item list" where
  "word_pattern word = [WordBoundary] @ re_escape (lower word) @ [WordBoundary]"

text \<open>The loop over \<^verbatim>\<open>prohibited_words\<close>; \<open>found\<close> is the list \<^verbatim>\<open>violations\<close> it appends to.\<close>

fun scan_words :: "legal_config \<Rightarrow> string \<Rightarrow> string list \<Rightarrow> string list \<Rightarrow> string list" where
  "scan_words cfg text_lower [] found = found"
| "scan_words cfg text_lower (word # rest) found =
     (if re_search (word_pattern word) text_lower
      then scan_words cfg text_lower rest (found @ [violation_msg cfg word])
      else scan_words cfg text_lower rest found)"

definition check_legal_compliance :: "legal_config \<Rightarrow> string \<Rightarrow> compliance_result" where
  "check_legal_compliance cfg text =
     (if prohibited_words cfg = [] then
        \<lparr>passed = True, details = ''No prohibited words configured'', violations = []\<rparr>
      else
        let text_lower = lower text;
            found = scan_words cfg text_lower (prohibited_words cfg) []
        in if found \<noteq> [] then
             \<lparr>passed = False,
              details = join ''; ''
                [''Found '' @ str_nat (length found) @ '' prohibited term(s)''],
              violations = found\<rparr>
           else
             \<lparr>passed = True,
              details = join ''; ''
                [''No prohibited terms found (checked '' @
                 str_nat (length (prohibited_words cfg)) @ '' terms)''],
              violations = found\<rparr>)"

text \<open>
  What the specification asks of the matching, in its own words: a prohibited term has a
  case-insensitive whole-word match in the text when the lower-cased text contains the
  lower-cased term at a place that is anchored by a word boundary on both sides.
\<close>

definition is_word_boundary :: "string \<Rightarrow> string \<Rightarrow> bool" where
  "is_word_boundary before after =
     ((before \<noteq> [] \<and> is_word_char (last before)) \<noteq> (after \<noteq> [] \<and> is_word_char (hd after)))"

definition whole_word_match :: "string \<Rightarrow> string \<Rightarrow> bool" where
  "whole_word_match word text =
     (\<exists>pre post. lower text = pre @ lower word @ post \<and>
        is_word_boundary pre (lower word @ post) \<and>
        is_word_boundary (pre @ lower word) post)"

definition matched_words :: "legal_config \<Rightarrow> string \<Rightarrow> string list" where
  "matched_words cfg text = filter (\<lambda>word. whole_word_match word text) (prohibited_words cfg)"

text \<open>The character before a position, for the proofs about the search.\<close>

definition last_opt :: "string \<Rightarrow> char option" where
  "last_opt s = (if s = [] then None else Some (last s))"

section \<open>Brand compliance\<close>

text \<open>
  \<^verbatim>\<open>BrandConfig\<close>: the path of the logo template, the brand colours, the confidence
  threshold and the cached template \<^verbatim>\<open>_logo_template\<close>, which the constructor sets to
  \<^verbatim>\<open>None\<close>. A path counts as configured when it is neither \<^verbatim>\<open>None\<close> nor the empty
  string, as Python's truth test has it.
\<close>

record brand_config =
  logo_template_path :: "string option"
  brand_colors :: "string list"
  min_logo_confidence :: real
  logo_template :: "image option"

definition path_configured :: "brand_config \<Rightarrow> bool" where
  "path_configured cfg = (case logo_template_path cfg of None \<Rightarrow> False | Some p \<Rightarrow> p \<noteq> [])"

text \<open>
  What is found at a path: nothing, a file that does not decode as an image, or an image.
\<close>

datatype file_state = Missing | Unreadable | ImageFile image

type_synonym filesystem = "string \<Rightarrow> file_state"

text \<open>
  The computer-vision and clustering libraries, as far as the checker calls them: the
  conversion of an image to the matcher's colour order (\<^verbatim>\<open>cv2.cvtColor\<close>), the best
  score of the normalised template correlation (\<^verbatim>\<open>cv2.matchTemplate\<close> followed by
  \<^verbatim>\<open>cv2.minMaxLoc\<close>), and the dominant colours of an image as upper-case hex strings
  (the thumbnail, the k-means clustering with a fixed seed and the formatting of
  \<^verbatim>\<open>_analyze_colors\<close>). Each can raise.
\<close>

record vision =
  to_bgr :: "image \<Rightarrow> error + image"
  match_template :: "image \<Rightarrow> image \<Rightarrow> error + real"
  analyze_colors :: "image \<Rightarrow> error + string list"

definition load_logo_template ::
  "vision \<Rightarrow> filesystem \<Rightarrow> brand_config \<Rightarrow> brand_config \<times> (error + image option)" where
  "load_logo_template vis fs cfg =
     (if logo_template cfg = None \<and> path_configured cfg then
        (case fs (the (logo_template_path cfg)) of
           Missing \<Rightarrow> (cfg, Inr (logo_template cfg))
         | Unreadable \<Rightarrow> (cfg, Inl OSError)
         | ImageFile template_img \<Rightarrow>
             (case to_bgr vis template_img of
                Inl e \<Rightarrow> (cfg, Inl e)
              | Inr template \<Rightarrow> (cfg\<lparr>logo_template := Some template\<rparr>, Inr (Some template))))
      else (cfg, Inr (logo_template cfg)))"

definition detect_logo ::
  "vision \<Rightarrow> filesystem \<Rightarrow> brand_config \<Rightarrow> image \<Rightarrow> brand_config \<times> (error + bool)" where
  "detect_logo vis fs cfg img =
     (if \<not> path_configured cfg then (cfg, Inr False)
      else
        case load_logo_template vis fs cfg of
          (cfg, Inl e) \<Rightarrow> (cfg, Inl e)
        | (cfg, Inr None) \<Rightarrow> (cfg, Inr False)
        | (cfg, Inr (Some template)) \<Rightarrow>
            (case to_bgr vis img of
               Inl e \<Rightarrow> (cfg, Inl e)
             | Inr img_cv \<Rightarrow>
                 (case match_template vis img_cv template of
                    Inl e \<Rightarrow> (cfg, Inl e)
                  | Inr max_val \<Rightarrow> (cfg, Inr (max_val \<ge> min_logo_confidence cfg)))))"

text \<open>
  \<^verbatim>\<open>_color_match\<close>. \<^verbatim>\<open>int(s, 16)\<close> is only applied to slices of at most two characters,
  where it accepts surrounding white space, a sign and hexadecimal digits, and raises
  \<^verbatim>\<open>ValueError\<close> on anything else, the empty slice included.
\<close>

definition hex_value :: "char \<Rightarrow> int option" where
  "hex_value c =
     map_of (zip ''0123456789abcdef'' [0, 1, 2, 3, 4, 5, 6, 7, 8, 9, 10, 11, 12, 13, 14, 15])
       (lower_char c)"

fun hex_number :: "string \<Rightarrow> int \<Rightarrow> int option" where
  "hex_number [] acc = Some acc"
| "hex_number (c # s) acc =
     (case hex_value c of None \<Rightarrow> None | Some d \<Rightarrow> hex_number s (acc * 16 + d))"

definition strip :: "string \<Rightarrow> string" where
  "strip s = rev (dropWhile is_space (rev (dropWhile is_space s)))"

definition int16 :: "string \<Rightarrow> error + int" where
  "int16 s =
     (let t = strip s;
          (sign, digits) =
            (case t of
               [] \<Rightarrow> (1, t)
             | c # r \<Rightarrow> if c = CHR ''+'' then (1, r) else if c = CHR ''-'' then (- 1, r) else (1, t))
      in if digits = [] then Inl (ValueError (''invalid literal for int() with base 16: '' @ s))
         else case hex_number digits 0 of
                None \<Rightarrow> Inl (ValueError (''invalid literal for int() with base 16: '' @ s))
              | Some n \<Rightarrow> Inr (sign * n))"

definition hex_rgb :: "string \<Rightarrow> error + int \<times> int \<times> int" where
  "hex_rgb color =
     (let s = dropWhile (\<lambda>c. c = CHR ''#'') color
      in case int16 (take 2 s) of
           Inl e \<Rightarrow> Inl e
         | Inr r \<Rightarrow>
             (case int16 (take 2 (drop 2 s)) of
                Inl e \<Rightarrow> Inl e
              | Inr g \<Rightarrow>
                  (case int16 (take 2 (drop 4 s)) of
                     Inl e \<Rightarrow> Inl e
                   | Inr b \<Rightarrow> Inr (r, g, b))))"

definition color_match :: "string \<Rightarrow> string \<Rightarrow> int \<Rightarrow> error + bool" where
  "color_match color1 color2 tolerance =
     (case hex_rgb color1 of
        Inl e \<Rightarrow> Inl e
      | Inr (r1, g1, b1) \<Rightarrow>
          (case hex_rgb color2 of
             Inl e \<Rightarrow> Inl e
           | Inr (r2, g2, b2) \<Rightarrow>
               let distance = fl (sqrt (of_int ((r1 - r2)\<^sup>2 + (g1 - g2)\<^sup>2 + (b1 - b2)\<^sup>2)))
               in Inr (distance \<le> of_int tolerance)))"

text \<open>
  The \<^verbatim>\<open>any(...)\<close> over the generator: colour pairs are tried in order, the first match
  ends the search, and a malformed colour raises when its pair is reached.
\<close>

fun any_color_match :: "(string \<times> string) list \<Rightarrow> error + bool" where
  "any_color_match [] = Inr False"
| "any_color_match ((color, brand_color) # rest) =
     (case color_match color brand_color 30 of
        Inl e \<Rightarrow> Inl e
      | Inr True \<Rightarrow> Inr True
      | Inr False \<Rightarrow> any_color_match rest)"

definition check_brand_compliance ::
  "vision \<Rightarrow> filesystem \<Rightarrow> brand_config \<Rightarrow> image \<Rightarrow> brand_config \<times> (error + compliance_result)" where
  "check_brand_compliance vis fs cfg img =
     (case detect_logo vis fs cfg img of
        (cfg, Inl e) \<Rightarrow> (cfg, Inl e)
      | (cfg, Inr logo_detected) \<Rightarrow>
          let (found, details_parts) =
                (if path_configured cfg then
                   (if logo_detected then ([], [''Logo detected in image''])
                    else ([''Brand logo not detected in image''], [''Logo detection failed'']))
                 else ([], []))
          in if brand_colors cfg \<noteq> [] then
               (case analyze_colors vis img of
                  Inl e \<Rightarrow> (cfg, Inl e)
                | Inr colors_present \<Rightarrow>
                    (case any_color_match
                            (concat (map (\<lambda>color. map (\<lambda>brand_color. (color, brand_color))
                                                      (brand_colors cfg)) colors_present)) of
                       Inl e \<Rightarrow> (cfg, Inl e)
                     | Inr brand_colors_found \<Rightarrow>
                         let (found, details_parts) =
                               (if brand_colors_found then
                                  (found,
                                   details_parts @
                                     [''Brand colors detected: '' @ join '', '' (brand_colors cfg)])
                                else
                                  (found @ [''Brand colors not found. Expected: '' @
                                              join '', '' (brand_colors cfg)],
                                   details_parts @ [''Brand color validation failed'']))
                         in (cfg,
                             Inr \<lparr>passed = (length found = 0),
                                  details = (if details_parts \<noteq> [] then join ''; '' details_parts
                                             else ''No brand compliance checks configured''),
                                  violations = found\<rparr>)))
             else
               (cfg,
                Inr \<lparr>passed = (length found = 0),
                     details = (if details_parts \<noteq> [] then join ''; '' details_parts
                                else ''No brand compliance checks configured''),
                     violations = found\<rparr>))"

section \<open>An installation to evaluate on\<close>

text \<open>
  To evaluate the functions on concrete inputs the libraries need an instance. In this one
  no font file loads, so that \<^verbatim>\<open>_load_font\<close> falls back to the built-in font, which draws
  every character as a block 6 pixels wide and 11 high, with lines 15 pixels apart;
  a colour is a string \<^verbatim>\<open>#rrggbb\<close>; grey levels follow the documented
  \<^verbatim>\<open>L = R * 299/1000 + G * 587/1000 + B * 114/1000\<close>; compositing is source-over on
  8-bit channels; the template matcher finds nothing and the clustering returns pure red.
\<close>

fun splitlines :: "string \<Rightarrow> string \<Rightarrow> string list" where
  "splitlines cur [] = [cur]"
| "splitlines cur (c # s) =
     (if c = CHR 0x0A then cur # splitlines [] s else splitlines (cur @ [c]) s)"

definition block_size :: "string \<Rightarrow> int \<times> int" where
  "block_size s =
     (if s = [] then (0, 0)
      else let ls = splitlines [] s
           in (6 * int (foldr max (map length ls) 0), 15 * int (length ls) - 4))"

definition builtin_font :: font where
  "builtin_font =
     \<lparr>textbbox = (\<lambda>s. (0, 0, 6 * int (length s), if s = [] then 0 else 11)),
      multiline_textbbox = (\<lambda>s. (0, 0, fst (block_size s), snd (block_size s))),
      text_mask = (\<lambda>s x y. 0 \<le> x \<and> x < fst (block_size s) \<and> 0 \<le> y \<and> y < snd (block_size s))\<rparr>"

definition luminance :: "pixel \<Rightarrow> int" where
  "luminance p = (case p of (r, g, b, a) \<Rightarrow> (r * 299 + g * 587 + b * 114) div 1000)"

definition convert_one :: "mode \<Rightarrow> mode \<Rightarrow> pixel \<Rightarrow> pixel" where
  "convert_one src dst p =
     (case p of (r, g, b, a) \<Rightarrow>
        if src = dst then p
        else if dst = L then (luminance p, luminance p, luminance p, 255)
        else if src = L then (r, r, r, 255)
        else (r, g, b, 255))"

definition over :: "pixel \<Rightarrow> pixel \<Rightarrow> pixel" where
  "over dst src =
     (case dst of (r1, g1, b1, a1) \<Rightarrow>
      case src of (r2, g2, b2, a2) \<Rightarrow>
        ((r2 * a2 + r1 * (255 - a2)) div 255,
         (g2 * a2 + g1 * (255 - a2)) div 255,
         (b2 * a2 + b1 * (255 - a2)) div 255,
         a2 + a1 * (255 - a2) div 255))"

definition hex_color :: "string \<Rightarrow> pixel option" where
  "hex_color s =
     (if length s = 7 \<and> hd s = CHR ''#'' then
        (case hex_rgb s of Inl e \<Rightarrow> None | Inr (r, g, b) \<Rightarrow> Some (r, g, b, 255))
      else None)"

definition test_pil :: pil where
  "test_pil =
     \<lparr>truetype = (\<lambda>path font_size. None),
      load_default = builtin_font,
      getrgb = hex_color,
      convert_pixel = convert_one,
      composite_pixel = over\<rparr>"

definition test_vision :: vision where
  "test_vision =
     \<lparr>to_bgr = (\<lambda>img. Inr img),
      match_template = (\<lambda>img template. Inr 0),
      analyze_colors = (\<lambda>img. Inr [''#FF0000''])\<rparr>"

subsection \<open>Inputs to evaluate on\<close>

text \<open>
  A 4 by 4 image of one grey level, a 16 by 16 blue image (lower than the default padding
  of 20 pixels) and a 100 by 100 red one; a brand configuration whose logo path names a
  file that does not exist, and a disk with no file on it.
\<close>

definition grey4 :: "int \<Rightarrow> image" where
  "grey4 g = new_image RGB (4, 4) (g, g, g, 255)"

definition blue16 :: image where
  "blue16 = new_image RGB (16, 16) (0, 0, 255, 255)"

definition red100 :: image where
  "red100 = new_image RGB (100, 100) (255, 0, 0, 255)"

definition missing_logo_config :: brand_config where
  "missing_logo_config =
     \<lparr>logo_template_path = Some ''/nonexistent/logo.png'', brand_colors = [],
      min_logo_confidence = float_lit (7 / 10), logo_template = None\<rparr>"

definition empty_disk :: filesystem where
  "empty_disk = (\<lambda>path. Missing)"

section \<open>Properties of the float model\<close>

text \<open>Rounding to the nearest integer is monotone, exact on integers and off by at most a half.\<close>

lemma rhe_cases: "round_half_even x = \<lfloor>x\<rfloor> \<or> round_half_even x = \<lfloor>x\<rfloor> + 1"
  by (simp add: round_half_even_def Let_def)

lemma rhe_upper: "of_int (round_half_even x) \<le> x + 1/2"
  unfolding round_half_even_def Let_def by (auto; linarith)

lemma rhe_lower: "x - 1/2 \<le> of_int (round_half_even x)"
  unfolding round_half_even_def Let_def by (auto; linarith)

lemma rhe_of_int [simp]: "round_half_even (of_int n) = n"
  by (simp add: round_half_even_def)

lemma rhe_mono: "x \<le> y \<Longrightarrow> round_half_even x \<le> round_half_even y"
proof -
  assume xy: "x \<le> y"
  then have fl: "\<lfloor>x\<rfloor> \<le> \<lfloor>y\<rfloor>" by (rule floor_mono)
  show ?thesis
  proof (cases "\<lfloor>x\<rfloor> = \<lfloor>y\<rfloor>")
    case True
    with xy show ?thesis
      unfolding round_half_even_def Let_def by (auto; linarith)
  next
    case False
    with fl have "\<lfloor>x\<rfloor> + 1 \<le> \<lfloor>y\<rfloor>" by simp
    moreover have "round_half_even x \<le> \<lfloor>x\<rfloor> + 1" using rhe_cases [of x] by auto
    moreover have "\<lfloor>y\<rfloor> \<le> round_half_even y" using rhe_cases [of y] by auto
    ultimately show ?thesis by linarith
  qed
qed

lemma bit_length_pos: "0 < n \<Longrightarrow> 0 < bit_length n"
  by (subst bit_length.simps) simp

lemma bit_length_bounds: "0 < n \<Longrightarrow> 2 ^ (bit_length n - 1) \<le> n \<and> n < 2 ^ bit_length n"
proof (induction n rule: bit_length.induct)
  case (1 n)
  show ?case
  proof (cases "n div 2 = 0")
    case True
    with 1 have "n = 1" by presburger
    then show ?thesis by (simp add: bit_length.simps)
  next
    case False
    then have pos: "0 < n div 2" by simp
    define k where "k = bit_length (n div 2)"
    from 1 pos have ih: "2 ^ (k - 1) \<le> n div 2" "n div 2 < 2 ^ k"
      by (auto simp: k_def)
    have bl: "bit_length n = Suc k" using 1(2) unfolding k_def by (subst bit_length.simps) simp
    have "0 < k" using pos unfolding k_def by (rule bit_length_pos)
    then have e: "(2::nat) ^ k = 2 * 2 ^ (k - 1)"
      by (cases k) simp_all
    have d: "2 * (n div 2) \<le> n" "n < 2 * (n div 2) + 2" by presburger+
    have "2 ^ k \<le> n" using ih(1) d(1) unfolding e by linarith
    moreover have "n < 2 * 2 ^ k" using ih(2) d(2) by linarith
    ultimately show ?thesis unfolding bl by simp
  qed
qed

lemma real_pow2_le: "(2::nat) ^ k \<le> n \<Longrightarrow> (2::real) ^ k \<le> real n"
proof -
  assume "(2::nat) ^ k \<le> n"
  then have "real ((2::nat) ^ k) \<le> real n" by (simp only: of_nat_le_iff)
  then show ?thesis by simp
qed

lemma real_lt_pow2: "n < (2::nat) ^ k \<Longrightarrow> real n + 1 \<le> (2::real) ^ k"
proof -
  assume "n < (2::nat) ^ k"
  then have "Suc n \<le> 2 ^ k" by simp
  then have "real (Suc n) \<le> real ((2::nat) ^ k)" by (simp only: of_nat_le_iff)
  then show ?thesis by simp
qed

lemma exponent_bounds:
  assumes "0 < x"
  shows "2 powi exponent x \<le> x \<and> x < 2 powi (exponent x + 1)"
proof (cases "1 \<le> x")
  case True
  define n where "n = nat \<lfloor>x\<rfloor>"
  have f: "1 \<le> \<lfloor>x\<rfloor>" using True by simp
  then have rn: "real n = of_int \<lfloor>x\<rfloor>" unfolding n_def by simp
  have n: "0 < n" using f unfolding n_def by simp
  have nx: "real n \<le> x" "x < real n + 1" unfolding rn by linarith+
  define b where "b = bit_length n"
  have b: "0 < b" "2 ^ (b - 1) \<le> n" "n < 2 ^ b"
    using bit_length_bounds [OF n] bit_length_pos [OF n] by (auto simp: b_def)
  have e: "exponent x = int (b - 1)" using True b(1) by (simp add: exponent_def n_def b_def)
  have e2: "int (b - 1) + 1 = int b" using b(1) by simp
  show ?thesis unfolding e e2 power_int_of_nat
    using real_pow2_le [OF b(2)] real_lt_pow2 [OF b(3)] nx by linarith
next
  case False
  define y where "y = 1 / x"
  have y: "1 < y" using False assms by (simp add: y_def)
  define n where "n = nat (\<lceil>y\<rceil> - 1)"
  have c: "2 \<le> \<lceil>y\<rceil>" using y by linarith
  then have rn: "real n = of_int \<lceil>y\<rceil> - 1" unfolding n_def by simp
  have n: "0 < n" using c unfolding n_def by simp
  have ny: "real n < y" "y \<le> real n + 1" unfolding rn by linarith+
  define b where "b = bit_length n"
  have b: "0 < b" "2 ^ (b - 1) \<le> n" "n < 2 ^ b"
    using bit_length_bounds [OF n] bit_length_pos [OF n] by (auto simp: b_def)
  have e: "exponent x = - int b" using False by (simp add: exponent_def n_def b_def y_def)
  have e2: "- int b + 1 = - int (b - 1)" using b(1) by simp
  have p1: "(2::real) powi (- int b) = 1 / 2 ^ b"
    by (simp only: power_int_minus_divide power_int_of_nat)
  have p2: "(2::real) powi (- int (b - 1)) = 1 / 2 ^ (b - 1)"
    by (simp only: power_int_minus_divide power_int_of_nat)
  have x: "x = 1 / y" by (simp add: y_def)
  have lo: "(2::real) ^ (b - 1) < y" using real_pow2_le [OF b(2)] ny by linarith
  have hi: "y \<le> 2 ^ b" using real_lt_pow2 [OF b(3)] ny by linarith
  have "1 / 2 ^ b \<le> 1 / y" using hi y by (intro divide_left_mono) simp_all
  then have r1: "1 / 2 ^ b \<le> x" by (simp only: x)
  have "1 / y < 1 / 2 ^ (b - 1)" using lo y by (intro divide_strict_left_mono) simp_all
  then have r2: "x < 1 / 2 ^ (b - 1)" by (simp only: x)
  show ?thesis unfolding e e2 p1 p2 using r1 r2 by simp
qed

lemma fl_pos_eq: "0 < x \<Longrightarrow> fl x = of_int (round_half_even (x / ulp_of x)) * ulp_of x"
  by (simp add: fl_def)

lemma fl_zero [simp]: "fl 0 = 0"
  by (simp add: fl_def)

lemma ulp_minus [simp]: "ulp_of (- x) = ulp_of x"
  by (simp add: ulp_of_def)

lemma fl_minus: "fl (- x) = - fl x"
  by (simp add: fl_def)

lemma ulp_pos: "0 < ulp_of x"
  by (simp add: ulp_of_def)

lemma pow2_split: "(2::real) powi (e + k) = 2 powi e * 2 powi k"
  by (rule power_int_add) simp

lemma ulp_scaled:
  assumes "0 < x"
  shows "2 ^ 52 * ulp_of x \<le> x" and "x < 2 ^ 53 * ulp_of x"
proof -
  define e where "e = exponent x"
  have u: "ulp_of x = 2 powi (e - 52)" using assms by (simp add: ulp_of_def e_def)
  have "e = 52 + (e - 52)" by simp
  then have "(2::real) powi e = 2 powi (52 + (e - 52))" by (rule arg_cong)
  also have "\<dots> = 2 powi 52 * 2 powi (e - 52)" by (rule pow2_split)
  finally have a: "(2::real) powi e = 2 ^ 52 * ulp_of x" by (simp add: u)
  have "e + 1 = 53 + (e - 52)" by simp
  then have "(2::real) powi (e + 1) = 2 powi (53 + (e - 52))" by (rule arg_cong)
  also have "\<dots> = 2 powi 53 * 2 powi (e - 52)" by (rule pow2_split)
  finally have b: "(2::real) powi (e + 1) = 2 ^ 53 * ulp_of x" by (simp add: u)
  show "2 ^ 52 * ulp_of x \<le> x" and "x < 2 ^ 53 * ulp_of x"
    using exponent_bounds [OF assms] unfolding e_def [symmetric] a b by simp_all
qed

lemma significand_bounds:
  assumes "0 < x"
  shows "2 ^ 52 \<le> round_half_even (x / ulp_of x)" and "round_half_even (x / ulp_of x) \<le> 2 ^ 53"
proof -
  have "(2::real) ^ 52 \<le> x / ulp_of x"
    using ulp_scaled(1) [OF assms] ulp_pos [of x] by (simp add: pos_le_divide_eq)
  then have "round_half_even (of_int (2 ^ 52)) \<le> round_half_even (x / ulp_of x)"
    by (intro rhe_mono) simp
  then show "2 ^ 52 \<le> round_half_even (x / ulp_of x)" by (simp only: rhe_of_int)
  have "x / ulp_of x \<le> (2::real) ^ 53"
    using ulp_scaled(2) [OF assms] ulp_pos [of x] by (simp add: pos_divide_le_eq)
  then have "round_half_even (x / ulp_of x) \<le> round_half_even (of_int (2 ^ 53))"
    by (intro rhe_mono) simp
  then show "round_half_even (x / ulp_of x) \<le> 2 ^ 53" by (simp only: rhe_of_int)
qed

lemma fl_pos_bounds:
  assumes "0 < x"
  shows "2 ^ 52 * ulp_of x \<le> fl x" and "fl x \<le> 2 ^ 53 * ulp_of x"
proof -
  have "(2::real) ^ 52 \<le> of_int (round_half_even (x / ulp_of x))"
    using significand_bounds(1) [OF assms] by (metis of_int_le_iff of_int_numeral of_int_power)
  then show "2 ^ 52 * ulp_of x \<le> fl x"
    unfolding fl_pos_eq [OF assms] using ulp_pos [of x] by (intro mult_right_mono) simp_all
  have "of_int (round_half_even (x / ulp_of x)) \<le> (2::real) ^ 53"
    using significand_bounds(2) [OF assms] by (metis of_int_le_iff of_int_numeral of_int_power)
  then show "fl x \<le> 2 ^ 53 * ulp_of x"
    unfolding fl_pos_eq [OF assms] using ulp_pos [of x] by (intro mult_right_mono) simp_all
qed

lemma fl_pos: "0 < x \<Longrightarrow> 0 < fl x"
proof -
  assume x: "0 < x"
  have "0 < 2 ^ 52 * ulp_of x" using ulp_pos [of x] by simp
  then show ?thesis using fl_pos_bounds(1) [OF x] by linarith
qed

lemma fl_nonneg: "0 \<le> x \<Longrightarrow> 0 \<le> fl x"
  using fl_pos [of x] by (cases "x = 0") auto

lemma fl_nonpos: "x \<le> 0 \<Longrightarrow> fl x \<le> 0"
  using fl_nonneg [of "- x"] by (simp add: fl_minus)

lemma exponent_mono:
  assumes "0 < x" "x \<le> y"
  shows "exponent x \<le> exponent y"
proof -
  have "0 < y" using assms by simp
  have lt: "(2::real) powi exponent x < 2 powi (exponent y + 1)"
    using exponent_bounds [OF assms(1)] exponent_bounds [OF \<open>0 < y\<close>] assms(2) by linarith
  have "exponent x < exponent y + 1"
  proof (rule ccontr)
    assume "\<not> exponent x < exponent y + 1"
    then have "exponent y + 1 \<le> exponent x" by simp
    then have "(2::real) powi (exponent y + 1) \<le> 2 powi exponent x"
      by (intro power_int_increasing) simp_all
    with lt show False by simp
  qed
  then show ?thesis by simp
qed

lemma fl_mono_pos:
  assumes "0 < x" "x \<le> y"
  shows "fl x \<le> fl y"
proof -
  have y: "0 < y" using assms by simp
  have le: "exponent x \<le> exponent y" using assms by (rule exponent_mono)
  show ?thesis
  proof (cases "exponent x = exponent y")
    case True
    then have u: "ulp_of y = ulp_of x" using assms y by (simp add: ulp_of_def)
    have "x / ulp_of x \<le> y / ulp_of x"
      using assms(2) ulp_pos [of x] by (simp add: divide_right_mono)
    then have "round_half_even (x / ulp_of x) \<le> round_half_even (y / ulp_of x)"
      by (rule rhe_mono)
    then have "(of_int (round_half_even (x / ulp_of x)) :: real) \<le> of_int (round_half_even (y / ulp_of x))"
      by (simp only: of_int_le_iff)
    then show ?thesis
      unfolding fl_pos_eq [OF assms(1)] fl_pos_eq [OF y] u
      using ulp_pos [of x] by (intro mult_right_mono) simp_all
  next
    case False
    with le have "exponent x + 1 \<le> exponent y" by simp
    then have "exponent x - 52 + 1 \<le> exponent y - 52" by simp
    then have "(2::real) powi (exponent x - 52 + 1) \<le> 2 powi (exponent y - 52)"
      by (intro power_int_increasing) simp_all
    moreover have "(2::real) powi (exponent x - 52 + 1) = 2 powi (exponent x - 52) * 2"
      using pow2_split [of "exponent x - 52" 1] by simp
    ultimately have "2 * ulp_of x \<le> ulp_of y"
      using assms y by (simp add: ulp_of_def)
    then have "2 ^ 53 * ulp_of x \<le> 2 ^ 52 * ulp_of y" by simp
    then show ?thesis
      using fl_pos_bounds(2) [OF assms(1)] fl_pos_bounds(1) [OF y] by linarith
  qed
qed

lemma fl_mono: "x \<le> y \<Longrightarrow> fl x \<le> fl y"
proof -
  assume xy: "x \<le> y"
  consider "0 < x" | "x \<le> 0" "0 \<le> y" | "y < 0" using xy by linarith
  then show ?thesis
  proof cases
    case 1
    then show ?thesis using xy by (rule fl_mono_pos)
  next
    case 2
    then show ?thesis using fl_nonpos [of x] fl_nonneg [of y] by linarith
  next
    case 3
    then have "fl (- y) \<le> fl (- x)" using xy by (intro fl_mono_pos) simp_all
    then show ?thesis by (simp add: fl_minus)
  qed
qed

lemma fl_exact_pos:
  assumes "0 < m" "m < 2 ^ 53"
  shows "fl (of_int m * 2 powi e) = of_int m * 2 powi e"
proof -
  define x :: real where "x = of_int m * 2 powi e"
  have x: "0 < x" using assms(1) by (simp add: x_def)
  define E where "E = exponent x"
  have u: "ulp_of x = 2 powi (E - 52)" using x by (simp add: ulp_of_def E_def)
  have "of_int m < (2::real) ^ 53"
    using assms(2) by (metis of_int_less_iff of_int_numeral of_int_power)
  then have "x < 2 ^ 53 * 2 powi e" unfolding x_def by (intro mult_strict_right_mono) simp_all
  also have "\<dots> = 2 powi (53 + e)" using pow2_split [of 53 e] by simp
  finally have "(2::real) powi E < 2 powi (53 + e)"
    using exponent_bounds [OF x] unfolding E_def by linarith
  have "E < 53 + e"
  proof (rule ccontr)
    assume "\<not> E < 53 + e"
    then have "53 + e \<le> E" by simp
    then have "(2::real) powi (53 + e) \<le> 2 powi E" by (intro power_int_increasing) simp_all
    with \<open>(2::real) powi E < 2 powi (53 + e)\<close> show False by simp
  qed
  then have k: "0 \<le> e - (E - 52)" by simp
  define k where "k = nat (e - (E - 52))"
  have "e = int k + (E - 52)" using k by (simp add: k_def)
  then have "(2::real) powi e = 2 powi (int k + (E - 52))" by (rule arg_cong)
  also have "\<dots> = 2 ^ k * ulp_of x" using pow2_split [of "int k" "E - 52"] by (simp add: u)
  finally have pe: "(2::real) powi e = 2 ^ k * ulp_of x" .
  have xk: "x = of_int m * (2 ^ k * ulp_of x)"
    unfolding pe [symmetric] by (rule x_def)
  have "x / ulp_of x = of_int m * (2 ^ k * ulp_of x) / ulp_of x"
    using xk by (rule arg_cong [where f = "\<lambda>p. p / ulp_of x"])
  also have "\<dots> = of_int m * 2 ^ k" using ulp_pos [of x] by simp
  also have "\<dots> = of_int (m * 2 ^ k)" by simp
  finally have "round_half_even (x / ulp_of x) = m * 2 ^ k" by (simp only: rhe_of_int)
  then have "fl x = of_int (m * 2 ^ k) * ulp_of x" by (simp only: fl_pos_eq [OF x])
  also have "\<dots> = of_int m * (2 ^ k * ulp_of x)" by simp
  also have "\<dots> = x" by (rule xk [symmetric])
  finally have "fl x = x" .
  then show ?thesis by (simp only: x_def)
qed

lemma fl_representable: "representable x \<Longrightarrow> fl x = x"
proof -
  assume "representable x"
  then obtain m e where m: "\<bar>m\<bar> < 2 ^ 53" and x: "x = of_int m * 2 powi e"
    unfolding representable_def by blast
  consider "0 < m" | "m = 0" | "m < 0" by linarith
  then show ?thesis
  proof cases
    case 1
    then show ?thesis using m fl_exact_pos [of m e] by (simp add: x)
  next
    case 2
    then show ?thesis by (simp add: x)
  next
    case 3
    then have "fl (of_int (- m) * 2 powi e) = of_int (- m) * 2 powi e"
      using m by (intro fl_exact_pos) simp_all
    then have "fl (- x) = - x" by (simp add: x)
    then show ?thesis by (simp add: fl_minus)
  qed
qed

lemma representable_of_int: "\<bar>n\<bar> < 2 ^ 53 \<Longrightarrow> representable (of_int n)"
  unfolding representable_def by (intro exI [of _ n] exI [of _ 0]) simp

lemma fl_of_int: "\<bar>n\<bar> < 2 ^ 53 \<Longrightarrow> fl (of_int n) = of_int n"
  by (intro fl_representable representable_of_int)

lemma pow2_succ: "(2::real) powi (e + 1) = 2 powi e * 2"
  using pow2_split [of e 1] by simp

lemma representable_fl: "representable (fl x)"
proof -
  have pos: "representable (fl y)" if y: "0 < y" for y
  proof -
    define s where "s = round_half_even (y / ulp_of y)"
    have s: "2 ^ 52 \<le> s" "s \<le> 2 ^ 53" using significand_bounds [OF y] by (simp_all add: s_def)
    have f: "fl y = of_int s * ulp_of y" by (simp add: fl_pos_eq [OF y] s_def)
    show ?thesis
    proof (cases "s = 2 ^ 53")
      case True
      have d: "ulp_of y * 2 = 2 powi (exponent \<bar>y\<bar> - 52 + 1)"
        unfolding ulp_of_def by (rule pow2_succ [symmetric])
      have "fl y = 2 ^ 52 * (ulp_of y * 2)"
        unfolding f True by simp
      then have "fl y = of_int (2 ^ 52) * 2 powi (exponent \<bar>y\<bar> - 52 + 1)"
        unfolding d by simp
      moreover have "\<bar>2 ^ 52 :: int\<bar> < 2 ^ 53" by simp
      ultimately show ?thesis unfolding representable_def by blast
    next
      case False
      with s have "\<bar>s\<bar> < 2 ^ 53" by simp
      moreover have "fl y = of_int s * 2 powi (exponent \<bar>y\<bar> - 52)"
        unfolding f ulp_of_def by (rule refl)
      ultimately show ?thesis unfolding representable_def by blast
    qed
  qed
  have neg: "representable (- z)" if "representable z" for z
  proof -
    from that obtain m e where "\<bar>m\<bar> < 2 ^ 53" "z = of_int m * 2 powi e"
      unfolding representable_def by blast
    then have "\<bar>- m\<bar> < 2 ^ 53" "- z = of_int (- m) * 2 powi e" by simp_all
    then show ?thesis unfolding representable_def by blast
  qed
  consider "0 < x" | "x = 0" | "x < 0" by linarith
  then show ?thesis
  proof cases
    case 1
    then show ?thesis by (rule pos)
  next
    case 2
    have "\<bar>0::int\<bar> < 2 ^ 53" "fl 0 = of_int 0 * 2 powi 0" by simp_all
    then show ?thesis unfolding 2 representable_def by blast
  next
    case 3
    then have "representable (fl (- x))" by (intro pos) simp
    then have "representable (- fl (- x))" by (rule neg)
    then show ?thesis by (simp add: fl_minus)
  qed
qed

lemma fl_idem [simp]: "fl (fl x) = fl x"
  by (intro fl_representable representable_fl)

lemma fl_error_pos:
  assumes "0 < x"
  shows "\<bar>fl x - x\<bar> \<le> x / 2 ^ 53"
proof -
  define s where "s = x / ulp_of x"
  have x: "x = s * ulp_of x" using ulp_pos [of x] by (simp add: s_def)
  have "\<bar>of_int (round_half_even s) - s\<bar> \<le> 1 / 2"
    using rhe_upper [of s] rhe_lower [of s] by linarith
  then have "\<bar>of_int (round_half_even s) - s\<bar> * ulp_of x \<le> 1 / 2 * ulp_of x"
    using ulp_pos [of x] by (intro mult_right_mono) simp_all
  moreover have "fl x - x = (of_int (round_half_even s) - s) * ulp_of x"
    unfolding fl_pos_eq [OF assms] s_def [symmetric] using x by (simp add: algebra_simps)
  ultimately have "\<bar>fl x - x\<bar> \<le> ulp_of x / 2"
    using ulp_pos [of x] by (simp add: abs_mult)
  moreover have "ulp_of x \<le> x / 2 ^ 52" using ulp_scaled(1) [OF assms] by (simp add: field_simps)
  ultimately show ?thesis by simp
qed

lemma fl_error: "\<bar>fl x - x\<bar> \<le> \<bar>x\<bar> / 2 ^ 53"
proof -
  consider "0 < x" | "x = 0" | "x < 0" by linarith
  then show ?thesis
  proof cases
    case 1
    then show ?thesis using fl_error_pos [of x] by simp
  next
    case 2
    then show ?thesis by simp
  next
    case 3
    then have "\<bar>fl (- x) - (- x)\<bar> \<le> (- x) / 2 ^ 53" by (intro fl_error_pos) simp
    then show ?thesis using 3 by (simp add: fl_minus)
  qed
qed

text \<open>The operations built on the rounding, and its evaluation on numerals.\<close>

lemma py_int_mono: "x \<le> y \<Longrightarrow> py_int x \<le> py_int y"
proof -
  assume xy: "x \<le> y"
  consider "0 \<le> x" | "x < 0" "0 \<le> y" | "y < 0" by linarith
  then show ?thesis
  proof cases
    case 1
    then show ?thesis using xy by (simp add: py_int_def floor_mono)
  next
    case 2
    then have "\<lceil>x\<rceil> \<le> 0" "0 \<le> \<lfloor>y\<rfloor>" by (simp_all add: ceiling_le_zero)
    then have "\<lceil>x\<rceil> \<le> \<lfloor>y\<rfloor>" by linarith
    then show ?thesis using 2 by (simp add: py_int_def)
  next
    case 3
    then show ?thesis using xy by (simp add: py_int_def ceiling_mono)
  qed
qed

lemma py_int_nonneg: "0 \<le> x \<Longrightarrow> 0 \<le> py_int x"
  by (simp add: py_int_def)

lemma py_int_nonpos: "x \<le> 0 \<Longrightarrow> py_int x \<le> 0"
  by (cases "x = 0") (simp_all add: py_int_def ceiling_le_zero)

lemma py_int_of_int [simp]: "py_int (of_int n) = n"
  by (simp add: py_int_def)

lemma float_of_int_exact: "\<bar>n\<bar> < 2 ^ 53 \<Longrightarrow> float_of_int n = of_int n"
  by (simp add: float_of_int_def fl_of_int)

lemma float_of_int_mono: "m \<le> n \<Longrightarrow> float_of_int m \<le> float_of_int n"
  by (simp add: float_of_int_def fl_mono)

lemma float_of_int_nonneg: "0 \<le> n \<Longrightarrow> 0 \<le> float_of_int n"
  by (simp add: float_of_int_def fl_nonneg)

lemma float_of_int_nonpos: "n \<le> 0 \<Longrightarrow> float_of_int n \<le> 0"
  by (simp add: float_of_int_def fl_nonpos)

lemma float_lit_1000: "float_lit 1000 = 1000"
  using fl_of_int [of 1000] by (simp add: float_lit_def)

lemma fl_lower: "0 \<le> x \<Longrightarrow> x - x / 2 ^ 53 \<le> fl x"
proof -
  assume "0 \<le> x"
  then have "\<bar>fl x - x\<bar> \<le> x / 2 ^ 53" using fl_error [of x] by (simp only: abs_of_nonneg)
  then show ?thesis by linarith
qed

lemma fl_upper: "0 \<le> x \<Longrightarrow> fl x \<le> x + x / 2 ^ 53"
proof -
  assume "0 \<le> x"
  then have "\<bar>fl x - x\<bar> \<le> x / 2 ^ 53" using fl_error [of x] by (simp only: abs_of_nonneg)
  then show ?thesis by linarith
qed

lemma fl_half_integer:
  assumes "\<bar>n\<bar> < 2 ^ 51"
  shows "fl (of_int n + 1 / 2) = of_int n + 1 / 2"
proof (rule fl_representable)
  have "\<bar>2 * n + 1\<bar> < 2 ^ 53" using assms by simp
  moreover have "real_of_int n + 1 / 2 = of_int (2 * n + 1) * 2 powi (- 1)"
    by (simp add: power_int_minus field_simps)
  ultimately show "representable (real_of_int n + 1 / 2)"
    unfolding representable_def by blast
qed

lemma bit_length_0: "bit_length 0 = 0" by (simp add: bit_length.simps)
lemma bit_length_One: "bit_length (numeral Num.One) = Suc 0" by (simp add: bit_length.simps)
lemma bit_length_Suc0: "bit_length (Suc 0) = Suc 0" by (simp add: bit_length.simps)
lemma bit_length_Bit0: "bit_length (numeral (Num.Bit0 n)) = Suc (bit_length (numeral n))"
  by (subst bit_length.simps) simp
lemma bit_length_Bit1: "bit_length (numeral (Num.Bit1 n)) = Suc (bit_length (numeral n))"
  by (subst bit_length.simps) (simp add: numeral_Bit1_div_2)

lemmas fl_eval = fl_def ulp_of_def exponent_def round_half_even_def Let_def
  bit_length_0 bit_length_One bit_length_Suc0 bit_length_Bit0 bit_length_Bit1
  float_lit_def float_of_int_def fmul_def fdiv_def fadd_def fsub_def int_truediv_def py_int_def

lemma ratio_1_1: "float_lit 1 = 1" by (simp add: fl_eval)
lemma ratio_9_16: "int_truediv 9 16 = 9 / 16" by (simp add: fl_eval)
lemma ratio_16_9: "int_truediv 16 9 = 2001599834386887 / 1125899906842624" by (simp add: fl_eval)
lemma float_lit_3_10: "float_lit (3 / 10) = 5404319552844595 / 18014398509481984" by (simp add: fl_eval)

section \<open>Properties of the compositor\<close>

subsection \<open>The table of ratios\<close>

lemma ASPECT_RATIOS_values:
  "ASPECT_RATIOS = [(''1:1'', 1), (''9:16'', 9 / 16), (''16:9'', 2001599834386887 / 1125899906842624)]"
  by (simp add: ASPECT_RATIOS_def ratio_1_1 ratio_9_16 ratio_16_9)

lemma supported_iff:
  "(map_of ASPECT_RATIOS r = None) = (r \<notin> {''1:1'', ''9:16'', ''16:9''})"
  by (auto simp: ASPECT_RATIOS_values)

lemma supported_cases:
  assumes "map_of ASPECT_RATIOS r = Some R"
  shows "(r = ''1:1'' \<and> R = 1) \<or> (r = ''9:16'' \<and> R = 9 / 16)
       \<or> (r = ''16:9'' \<and> R = 2001599834386887 / 1125899906842624)"
  using assms by (auto simp: ASPECT_RATIOS_values split: if_splits)

lemma supported_pos: "map_of ASPECT_RATIOS r = Some R \<Longrightarrow> 0 < R"
  using supported_cases [of r R] by auto

lemma supported_representable: "map_of ASPECT_RATIOS r = Some R \<Longrightarrow> fl R = R"
  by (auto simp: ASPECT_RATIOS_def float_lit_def int_truediv_def split: if_splits)

subsection \<open>Crop sizes and crop boxes\<close>

lemma supported_fl_nominal:
  "map_of ASPECT_RATIOS r = Some R \<Longrightarrow> R = fl (nominal_ratio r)"
  by (auto simp: ASPECT_RATIOS_def nominal_ratio_def float_lit_def int_truediv_def split: if_splits)

lemma supported_nominal:
  assumes "map_of ASPECT_RATIOS r = Some R"
  shows "(r = ''1:1'' \<and> R = 1 \<and> nominal_ratio r = 1)
       \<or> (r = ''9:16'' \<and> R = 9 / 16 \<and> nominal_ratio r = 9 / 16)
       \<or> (r = ''16:9'' \<and> R = 2001599834386887 / 1125899906842624 \<and> nominal_ratio r = 16 / 9)"
  using supported_cases [OF assms] by (auto simp: nominal_ratio_def)

text \<open>The wide branch never asks for more columns than the source has.\<close>

lemma wide_width_le:
  assumes w: "0 < w" "w < 2 ^ 53" and h: "0 < h" "h < 2 ^ 53"
    and R: "0 < R" "fl R = R"
    and wide: "int_truediv w h > R"
  shows "0 \<le> py_int (fmul (float_of_int h) R)" and "py_int (fmul (float_of_int h) R) \<le> w"
proof -
  have fh: "float_of_int h = of_int h" using h by (intro float_of_int_exact) simp
  have "\<not> real_of_int w / real_of_int h \<le> R"
  proof
    assume "real_of_int w / real_of_int h \<le> R"
    then have "fl (real_of_int w / real_of_int h) \<le> fl R" by (rule fl_mono)
    then show False using wide R(2) by (simp add: int_truediv_def)
  qed
  then have "R < real_of_int w / real_of_int h" by simp
  then have "real_of_int h * R < real_of_int w" using h(1) by (simp add: pos_less_divide_eq mult.commute)
  then have "fl (real_of_int h * R) \<le> fl (real_of_int w)" by (intro fl_mono) simp
  also have "fl (real_of_int w) = real_of_int w" using w by (intro fl_of_int) simp
  finally have "py_int (fl (real_of_int h * R)) \<le> py_int (real_of_int w)" by (rule py_int_mono)
  then show "py_int (fmul (float_of_int h) R) \<le> w" by (simp add: fmul_def fh)
  have "0 \<le> real_of_int h * R" using h(1) R(1) by simp
  then show "0 \<le> py_int (fmul (float_of_int h) R)"
    unfolding fmul_def fh by (intro py_int_nonneg fl_nonneg)
qed

text \<open>The tall branch never asks for more rows than the source has.\<close>

lemma tall_height_le:
  assumes w: "0 < w" "w < 2 ^ 51" and h: "0 < h" "h < 2 ^ 51"
    and R: "0 < R"
    and tall: "\<not> int_truediv w h > R"
  shows "0 \<le> py_int (fdiv (float_of_int w) R)" and "py_int (fdiv (float_of_int w) R) \<le> h"
proof -
  have fw: "float_of_int w = of_int w" using w by (intro float_of_int_exact) simp
  define q where "q = real_of_int w / real_of_int h"
  have q0: "0 \<le> q" using w h by (simp add: q_def)
  have "q - q / 2 ^ 53 \<le> fl q" using q0 by (rule fl_lower)
  also have "fl q \<le> R" using tall by (simp add: int_truediv_def q_def)
  finally have "q * (1 - 1 / 2 ^ 53) \<le> R" by (simp add: algebra_simps)
  then have "q * (1 - 1 / 2 ^ 53) * real_of_int h \<le> R * real_of_int h"
    using h(1) by (intro mult_right_mono) simp_all
  moreover have "q * real_of_int h = real_of_int w" using h(1) by (simp add: q_def)
  ultimately have wh: "real_of_int w * (1 - 1 / 2 ^ 53) \<le> R * real_of_int h"
    by (simp add: algebra_simps)
  have "real_of_int w / R * (1 - 1 / 2 ^ 53) \<le> real_of_int h"
    using wh R by (simp add: field_simps)
  moreover have "real_of_int h < 2 ^ 51" using h(2) by (metis of_int_less_iff of_int_numeral of_int_power)
  moreover have "0 \<le> real_of_int w / R" using w(1) R by simp
  ultimately have "real_of_int w / R \<le> real_of_int h + 1 / 2"
    by (simp add: algebra_simps)
  then have "fl (real_of_int w / R) \<le> fl (real_of_int h + 1 / 2)" by (rule fl_mono)
  also have "\<dots> = real_of_int h + 1 / 2" using h by (intro fl_half_integer) simp
  finally have "py_int (fl (real_of_int w / R)) \<le> py_int (real_of_int h + 1 / 2)" by (rule py_int_mono)
  moreover have "py_int (real_of_int h + 1 / 2) = h" using h(1) by (simp add: py_int_def)
  ultimately show "py_int (fdiv (float_of_int w) R) \<le> h" by (simp add: fdiv_def fw)
  have "0 \<le> real_of_int w / R" using w(1) R by simp
  then show "0 \<le> py_int (fdiv (float_of_int w) R)"
    unfolding fdiv_def fw by (intro py_int_nonneg fl_nonneg)
qed

text \<open>The top of the vertical crop lies within the removable margin.\<close>

lemma upper_third_le:
  assumes "0 \<le> m" "m < 2 ^ 53"
  shows "0 \<le> py_int (fmul (float_of_int m) (float_lit (3 / 10)))"
    and "py_int (fmul (float_of_int m) (float_lit (3 / 10))) \<le> m"
proof -
  have fm: "float_of_int m = of_int m" using assms by (intro float_of_int_exact) simp
  have c: "float_lit (3 / 10) = 5404319552844595 / 18014398509481984" by (rule float_lit_3_10)
  have m: "0 \<le> real_of_int m" using assms by simp
  have "real_of_int m * (5404319552844595 / 18014398509481984) \<le> real_of_int m * 1"
    using m by (intro mult_left_mono) simp_all
  then have "fl (real_of_int m * (5404319552844595 / 18014398509481984)) \<le> fl (real_of_int m)"
    by (intro fl_mono) simp
  also have "fl (real_of_int m) = real_of_int m" using assms by (intro fl_of_int) simp
  finally have "py_int (fl (real_of_int m * (5404319552844595 / 18014398509481984))) \<le> py_int (real_of_int m)"
    by (rule py_int_mono)
  then show "py_int (fmul (float_of_int m) (float_lit (3 / 10))) \<le> m"
    by (simp add: fmul_def fm c)
  have "0 \<le> real_of_int m * (5404319552844595 / 18014398509481984)" using m by simp
  then show "0 \<le> py_int (fmul (float_of_int m) (float_lit (3 / 10)))"
    unfolding fmul_def fm c by (intro py_int_nonneg fl_nonneg)
qed

lemma smart_crop_size_cases:
  assumes "0 < h" "0 < R"
  shows "smart_crop_size w h R =
           (if int_truediv w h > R then Inr (py_int (fmul (float_of_int h) R), h)
            else Inr (w, py_int (fdiv (float_of_int w) R)))"
  using assms by (simp add: smart_crop_size_def Let_def)

lemma smart_crop_size_within:
  assumes w: "0 < w" "w < 2 ^ 31" and h: "0 < h" "h < 2 ^ 31"
    and R: "map_of ASPECT_RATIOS r = Some R"
    and s: "smart_crop_size w h R = Inr (nw, nh)"
  shows "0 \<le> nw \<and> nw \<le> w \<and> 0 \<le> nh \<and> nh \<le> h"
proof -
  have R0: "0 < R" and Rf: "fl R = R"
    using R by (rule supported_pos, rule supported_representable)
  have w': "w < 2 ^ 51" "w < 2 ^ 53" and h': "h < 2 ^ 51" "h < 2 ^ 53" using w h by simp_all
  show ?thesis
  proof (cases "int_truediv w h > R")
    case True
    then have "smart_crop_size w h R = Inr (py_int (fmul (float_of_int h) R), h)"
      by (simp add: smart_crop_size_cases [OF h(1) R0])
    with s have "nw = py_int (fmul (float_of_int h) R)" "nh = h" by auto
    then show ?thesis
      using wide_width_le [OF w(1) w'(2) h(1) h'(2) R0 Rf True] h(1) by simp
  next
    case False
    then have "smart_crop_size w h R = Inr (w, py_int (fdiv (float_of_int w) R))"
      by (simp add: smart_crop_size_cases [OF h(1) R0])
    with s have "nw = w" "nh = py_int (fdiv (float_of_int w) R)" by auto
    then show ?thesis
      using tall_height_le [OF w(1) w'(1) h(1) h'(1) R0 False] w(1) by simp
  qed
qed

lemma smart_crop_box_eq:
  "smart_crop_box w h nw nh r =
     (let left = (w - nw) div 2;
          top' = (if r = ''9:16''
                  then py_int (fmul (float_of_int (h - nh)) (float_lit (3 / 10)))
                  else (h - nh) div 2)
      in (left, top', left + nw, top' + nh))"
  by (simp add: smart_crop_box_def Let_def)

lemma smart_crop_box_within:
  assumes "0 \<le> nw" "nw \<le> w" "0 \<le> nh" "nh \<le> h" "h < 2 ^ 31"
    and "smart_crop_box w h nw nh r = (left, top', right, bottom)"
  shows "0 \<le> left \<and> 0 \<le> top' \<and> right = left + nw \<and> right \<le> w
       \<and> bottom = top' + nh \<and> bottom \<le> h"
proof -
  have l: "left = (w - nw) div 2" and rt: "right = left + nw" and b: "bottom = top' + nh"
    and t: "top' = (if r = ''9:16''
                  then py_int (fmul (float_of_int (h - nh)) (float_lit (3 / 10)))
                  else (h - nh) div 2)"
    using assms(6) by (simp_all add: smart_crop_box_eq Let_def)
  have "0 \<le> left" "left \<le> w - nw" using assms(1,2) unfolding l by simp_all
  moreover have "0 \<le> top' \<and> top' \<le> h - nh"
  proof (cases "r = ''9:16''")
    case True
    have "0 \<le> h - nh" "h - nh < 2 ^ 53" using assms(3,4,5) by simp_all
    then show ?thesis using upper_third_le [of "h - nh"] t True by simp
  next
    case False
    then show ?thesis using assms(3,4) t by simp
  qed
  ultimately show ?thesis using rt b by simp
qed

subsection \<open>Unsupported ratio names\<close>

lemma crop_ok:
  assumes "left \<le> right" "upper \<le> lower'"
  shows "crop img (left, upper, right, lower') =
     Inr \<lparr>im_size = (right - left, lower' - upper), im_mode = im_mode img,
          im_data = (\<lambda>x y. if in_image img (left + x) (upper + y)
                              then im_data img (left + x) (upper + y) else (0, 0, 0, 0))\<rparr>"
  using assms by (simp add: crop_def)

lemma smart_crop_size_nonneg:
  assumes "0 \<le> w" "0 < h" "0 < R" "smart_crop_size w h R = Inr (nw, nh)"
  shows "0 \<le> nw \<and> 0 \<le> nh"
proof (cases "int_truediv w h > R")
  case True
  then have "smart_crop_size w h R = Inr (py_int (fmul (float_of_int h) R), h)"
    by (simp add: smart_crop_size_cases [OF assms(2,3)])
  with assms(4) have "nw = py_int (fmul (float_of_int h) R)" "nh = h" by auto
  moreover have "0 \<le> float_of_int h * R"
    using float_of_int_nonneg [of h] assms(2,3) by simp
  ultimately show ?thesis using assms(2) by (simp add: fmul_def py_int_nonneg fl_nonneg)
next
  case False
  then have "smart_crop_size w h R = Inr (w, py_int (fdiv (float_of_int w) R))"
    by (simp add: smart_crop_size_cases [OF assms(2,3)])
  with assms(4) have "nw = w" "nh = py_int (fdiv (float_of_int w) R)" by auto
  moreover have "0 \<le> float_of_int w / R"
    using float_of_int_nonneg [OF assms(1)] assms(3) by simp
  ultimately show ?thesis using assms(1) by (simp add: fdiv_def py_int_nonneg fl_nonneg)
qed

lemma smart_crop_size_total:
  assumes "0 < h" "0 < R"
  shows "\<exists>nw nh. smart_crop_size w h R = Inr (nw, nh)"
  by (simp add: smart_crop_size_cases [OF assms])

lemma smart_crop_result:
  assumes "im_size img = (w, h)" "smart_crop_size w h R = Inr (nw, nh)" "0 \<le> nw" "0 \<le> nh"
    and "smart_crop_box w h nw nh r = (left, top', right, bottom)"
  shows "smart_crop img R r =
     Inr \<lparr>im_size = (nw, nh), im_mode = im_mode img,
          im_data = (\<lambda>x y. if in_image img (left + x) (top' + y)
                              then im_data img (left + x) (top' + y) else (0, 0, 0, 0))\<rparr>"
proof -
  have "right = left + nw" "bottom = top' + nh"
    using assms(5) by (simp_all add: smart_crop_box_eq Let_def)
  then have "crop img (left, top', right, bottom) =
     Inr \<lparr>im_size = (nw, nh), im_mode = im_mode img,
          im_data = (\<lambda>x y. if in_image img (left + x) (top' + y)
                              then im_data img (left + x) (top' + y) else (0, 0, 0, 0))\<rparr>"
    using assms(3,4) by (simp add: crop_ok)
  then show ?thesis using assms(1,2,5) by (simp add: smart_crop_def)
qed

lemma smart_crop_total:
  assumes "im_size img = (w, h)" "0 \<le> w" "0 < h" "map_of ASPECT_RATIOS r = Some R"
  shows "\<exists>out. smart_crop img R r = Inr out"
proof -
  have R0: "0 < R" using assms(4) by (rule supported_pos)
  obtain nw nh where s: "smart_crop_size w h R = Inr (nw, nh)"
    using smart_crop_size_total [OF assms(3) R0] by blast
  have n: "0 \<le> nw" "0 \<le> nh" using smart_crop_size_nonneg [OF assms(2,3) R0 s] by simp_all
  obtain left top' right bottom where b: "smart_crop_box w h nw nh r = (left, top', right, bottom)"
    by (metis prod_cases4)
  show ?thesis using smart_crop_result [OF assms(1) s n b] by blast
qed

lemma create_variants_loop_unsupported:
  assumes "im_size img = (w, h)" "0 \<le> w" "0 < h"
    and "\<exists>r \<in> set ratios. r \<notin> {''1:1'', ''9:16'', ''16:9''}"
  shows "\<exists>pre r post. ratios = pre @ r # post \<and> set pre \<subseteq> {''1:1'', ''9:16'', ''16:9''}
           \<and> r \<notin> {''1:1'', ''9:16'', ''16:9''}
           \<and> create_variants_loop img ratios variants =
               Inl (ValueError (''Unsupported aspect ratio: '' @ r))"
  using assms(4)
proof (induction ratios arbitrary: variants)
  case Nil
  then show ?case by simp
next
  case (Cons a ratios)
  show ?case
  proof (cases "map_of ASPECT_RATIOS a")
    case None
    then have "a \<notin> {''1:1'', ''9:16'', ''16:9''}" using supported_iff [of a] by blast
    moreover have "create_variants_loop img (a # ratios) variants =
        Inl (ValueError (''Unsupported aspect ratio: '' @ a))"
      using None by simp
    ultimately show ?thesis by (intro exI [of _ "[]"] exI [of _ a] exI [of _ ratios]) simp
  next
    case (Some R)
    then have a: "a \<in> {''1:1'', ''9:16'', ''16:9''}" using supported_iff [of a] by auto
    with Cons.prems have "\<exists>r \<in> set ratios. r \<notin> {''1:1'', ''9:16'', ''16:9''}" by auto
    moreover obtain out where out: "smart_crop img R a = Inr out"
      using smart_crop_total [OF assms(1-3) Some] by blast
    ultimately obtain pre r post where p: "ratios = pre @ r # post"
        "set pre \<subseteq> {''1:1'', ''9:16'', ''16:9''}" "r \<notin> {''1:1'', ''9:16'', ''16:9''}"
        "create_variants_loop img ratios (variants(a \<mapsto> out)) =
           Inl (ValueError (''Unsupported aspect ratio: '' @ r))"
      using Cons.IH [of "variants(a \<mapsto> out)"] by blast
    have "create_variants_loop img (a # ratios) variants =
        Inl (ValueError (''Unsupported aspect ratio: '' @ r))"
      using Some out p(4) by simp
    then show ?thesis using p(1-3) a
      by (intro exI [of _ "a # pre"] exI [of _ r] exI [of _ post]) simp
  qed
qed

text \<open>
  C2. For a non-empty source image and a list of ratio names with at least one name outside
  the supported set, \<open>create_variants\<close> raises the \<^verbatim>\<open>ValueError\<close> whose message names
  the first such name, and returns no mapping at all, not even for the supported names
  that came before it. (The image must have a positive height: the crops that precede the
  offending name divide by it.)
\<close>

theorem create_variants_unsupported:
  assumes "im_size img = (w, h)" and "0 < w" and "0 < h"
    and "\<exists>r \<in> set ratios. r \<notin> {''1:1'', ''9:16'', ''16:9''}"
  shows "\<exists>pre r post. ratios = pre @ r # post \<and> set pre \<subseteq> {''1:1'', ''9:16'', ''16:9''}
           \<and> r \<notin> {''1:1'', ''9:16'', ''16:9''}
           \<and> create_variants img (Some ratios) =
               Inl (ValueError (''Unsupported aspect ratio: '' @ r))
           \<and> (\<forall>variants. create_variants img (Some ratios) \<noteq> Inr variants)"
proof -
  have "0 \<le> w" using assms(2) by simp
  from create_variants_loop_unsupported [OF assms(1) this assms(3,4), of Map.empty]
  obtain pre r post where p: "ratios = pre @ r # post"
      "set pre \<subseteq> {''1:1'', ''9:16'', ''16:9''}" "r \<notin> {''1:1'', ''9:16'', ''16:9''}"
      "create_variants_loop img ratios Map.empty =
         Inl (ValueError (''Unsupported aspect ratio: '' @ r))"
    by blast
  then have "create_variants img (Some ratios) =
      Inl (ValueError (''Unsupported aspect ratio: '' @ r))"
    by (simp add: create_variants_def)
  then show ?thesis using p(1-3) by (intro exI [of _ pre] exI [of _ r] exI [of _ post]) simp
qed

theorem create_variants_unsupported_witness:
  "im_size (new_image RGB (1000, 1000) (0, 0, 255, 255)) = (1000, 1000)
   \<and> (0::int) < 1000
   \<and> (\<exists>r \<in> set [''1:1'', ''4:3'', ''16:9'']. r \<notin> {''1:1'', ''9:16'', ''16:9''})
   \<and> create_variants (new_image RGB (1000, 1000) (0, 0, 255, 255))
         (Some [''1:1'', ''4:3'', ''16:9'']) =
       Inl (ValueError ''Unsupported aspect ratio: 4:3'')"
proof -
  have sz: "im_size (new_image RGB (1000, 1000) (0, 0, 255, 255)) = (1000, 1000)"
    by (simp add: new_image_def)
  have b: "(0::int) < 1000" by simp
  have u: "\<exists>r \<in> set [''1:1'', ''4:3'', ''16:9'']. r \<notin> {''1:1'', ''9:16'', ''16:9''}" by simp
  from create_variants_unsupported [OF sz b b u]
  obtain pre r post where p: "[''1:1'', ''4:3'', ''16:9''] = pre @ r # post"
      "set pre \<subseteq> {''1:1'', ''9:16'', ''16:9''}" "r \<notin> {''1:1'', ''9:16'', ''16:9''}"
      "create_variants (new_image RGB (1000, 1000) (0, 0, 255, 255))
         (Some [''1:1'', ''4:3'', ''16:9'']) =
       Inl (ValueError (''Unsupported aspect ratio: '' @ r))"
    by blast
  have "r \<in> set [''1:1'', ''4:3'', ''16:9'']" by (subst p(1)) simp
  with p(3) have "r = ''4:3''" by simp
  then show ?thesis using sz b u p(4) by simp
qed

subsection \<open>The ratio of the crop\<close>

lemma frac_gap:
  fixes a b w h :: int
  assumes "0 < b" "0 < h" "a * h < b * w"
  shows "real_of_int a / real_of_int b + 1 / (real_of_int b * real_of_int h)
           \<le> real_of_int w / real_of_int h"
proof -
  have "a * h + 1 \<le> b * w" using assms(3) by simp
  then have "real_of_int (a * h + 1) \<le> real_of_int (b * w)" by (simp only: of_int_le_iff)
  then have "real_of_int a * real_of_int h + 1 \<le> real_of_int b * real_of_int w" by simp
  then have "(real_of_int a * real_of_int h + 1) / (real_of_int b * real_of_int h)
        \<le> real_of_int b * real_of_int w / (real_of_int b * real_of_int h)"
    using assms(1,2) by (intro divide_right_mono) simp_all
  moreover have "(real_of_int a * real_of_int h + 1) / (real_of_int b * real_of_int h)
        = real_of_int a / real_of_int b + 1 / (real_of_int b * real_of_int h)"
    using assms(1,2) by (simp add: add_divide_distrib)
  moreover have "real_of_int b * real_of_int w / (real_of_int b * real_of_int h)
        = real_of_int w / real_of_int h"
    using assms(1) by simp
  ultimately show ?thesis by simp
qed

lemma above_nominal:
  fixes a b w h :: int
  assumes b: "0 < b" "b \<le> 16" and h: "0 < h" "h < 2 ^ 31"
    and gt: "real_of_int a / real_of_int b < real_of_int w / real_of_int h"
  shows "real_of_int a / real_of_int b + 1 / 2 ^ 35 \<le> real_of_int w / real_of_int h"
proof -
  have "real_of_int a * real_of_int h < real_of_int b * real_of_int w"
    using gt b(1) h(1) by (simp add: field_simps)
  then have "real_of_int (a * h) < real_of_int (b * w)" by simp
  then have "a * h < b * w" by (simp only: of_int_less_iff)
  then have g: "real_of_int a / real_of_int b + 1 / (real_of_int b * real_of_int h)
           \<le> real_of_int w / real_of_int h"
    using b(1) h(1) by (intro frac_gap)
  have "real_of_int b \<le> 16" using b(2) by simp
  moreover have "real_of_int h \<le> 2 ^ 31" using h(2) by (metis less_imp_le of_int_le_iff of_int_numeral of_int_power)
  ultimately have "real_of_int b * real_of_int h \<le> 16 * 2 ^ 31"
    using b(1) h(1) by (intro mult_mono) simp_all
  then have "1 / (16 * 2 ^ 31) \<le> 1 / (real_of_int b * real_of_int h)"
    using b(1) h(1) by (intro divide_left_mono) simp_all
  then show ?thesis using g by simp
qed

lemma ratio_cmp:
  assumes w: "0 < w" and h: "0 < h" "h < 2 ^ 31"
    and R: "map_of ASPECT_RATIOS r = Some R"
  shows "(int_truediv w h > R) = (real_of_int w / real_of_int h > nominal_ratio r)"
proof
  assume gt: "int_truediv w h > R"
  show "real_of_int w / real_of_int h > nominal_ratio r"
  proof (rule ccontr)
    assume "\<not> real_of_int w / real_of_int h > nominal_ratio r"
    then have "fl (real_of_int w / real_of_int h) \<le> fl (nominal_ratio r)" by (intro fl_mono) simp
    then show False using gt supported_fl_nominal [OF R] by (simp add: int_truediv_def)
  qed
next
  assume gt: "real_of_int w / real_of_int h > nominal_ratio r"
  define q where "q = real_of_int w / real_of_int h"
  have q0: "0 \<le> q" using w h by (simp add: q_def)
  have lo: "q - q / 2 ^ 53 \<le> fl q" using q0 by (rule fl_lower)
  have "R < q - q / 2 ^ 53"
    using supported_nominal [OF R]
  proof (elim disjE conjE)
    assume c: "r = ''1:1''" "R = 1" "nominal_ratio r = 1"
    have "real_of_int 1 / real_of_int 1 < real_of_int w / real_of_int h" using gt c(3) by simp
    then have "real_of_int 1 / real_of_int 1 + 1 / 2 ^ 35 \<le> q"
      unfolding q_def using h by (intro above_nominal) simp_all
    then show ?thesis using c by simp
  next
    assume c: "r = ''9:16''" "R = 9 / 16" "nominal_ratio r = 9 / 16"
    have "real_of_int 9 / real_of_int 16 < real_of_int w / real_of_int h" using gt c(3) by simp
    then have "real_of_int 9 / real_of_int 16 + 1 / 2 ^ 35 \<le> q"
      unfolding q_def using h by (intro above_nominal) simp_all
    then show ?thesis using c by simp
  next
    assume c: "r = ''16:9''" "R = 2001599834386887 / 1125899906842624" "nominal_ratio r = 16 / 9"
    have "real_of_int 16 / real_of_int 9 < real_of_int w / real_of_int h" using gt c(3) by simp
    then have "real_of_int 16 / real_of_int 9 + 1 / 2 ^ 35 \<le> q"
      unfolding q_def using h by (intro above_nominal) simp_all
    then show ?thesis using c by simp
  qed
  then show "int_truediv w h > R" using lo by (simp add: int_truediv_def q_def)
qed

lemma ratio_abs_lt:
  fixes n d N c :: real
  assumes "0 < d" "\<bar>n - N * d\<bar> < c * d"
  shows "\<bar>n / d - N\<bar> < c"
proof -
  have "n / d - N = (n - N * d) / d" using assms(1) by (simp add: field_simps)
  then have "\<bar>n / d - N\<bar> = \<bar>n - N * d\<bar> / d" using assms(1) by (simp add: abs_divide)
  also have "\<dots> < c" using assms by (simp add: pos_divide_less_eq)
  finally show ?thesis .
qed

lemma py_int_floor_bounds:
  assumes "0 \<le> x"
  shows "real_of_int (py_int x) \<le> x" and "x < real_of_int (py_int x) + 1"
  using assms by (simp_all add: py_int_def)

lemma wide_tolerance:
  assumes h: "178 \<le> h" "h < 2 ^ 31"
    and R: "map_of ASPECT_RATIOS r = Some R"
    and nw: "nw = py_int (fmul (float_of_int h) R)"
  shows "\<bar>real_of_int nw / real_of_int h - nominal_ratio r\<bar> < 1 / 100"
    and "\<bar>real_of_int nw / real_of_int h - nominal_ratio r\<bar> < nominal_ratio r / 100"
proof -
  have fh: "float_of_int h = of_int h" using h by (intro float_of_int_exact) simp
  define H where "H = real_of_int h"
  have H: "178 \<le> H" using h(1) by (simp add: H_def)
  define X where "X = fl (H * R)"
  have p: "0 \<le> H * R" using H supported_pos [OF R] by simp
  have X: "H * R - H * R / 2 ^ 53 \<le> X" "X \<le> H * R + H * R / 2 ^ 53"
    unfolding X_def using fl_lower [OF p] fl_upper [OF p] by simp_all
  have X0: "0 \<le> X" unfolding X_def using p by (rule fl_nonneg)
  define n where "n = real_of_int nw"
  have n: "n \<le> X" "X < n + 1"
    unfolding n_def nw fmul_def fh X_def H_def
    using py_int_floor_bounds [OF X0 [unfolded X_def H_def]] by simp_all
  have both: "\<bar>n - nominal_ratio r * H\<bar> < 1 / 100 * H \<and> \<bar>n - nominal_ratio r * H\<bar> < nominal_ratio r / 100 * H"
    using supported_nominal [OF R]
  proof (elim disjE conjE)
    assume c: "r = ''1:1''" "R = 1" "nominal_ratio r = 1"
    have "n - nominal_ratio r * H < 1 / 100 * H" "nominal_ratio r * H - n < 1 / 100 * H"
      "n - nominal_ratio r * H < nominal_ratio r / 100 * H"
      "nominal_ratio r * H - n < nominal_ratio r / 100 * H"
      using X n H unfolding c(2,3) by simp_all
    then show ?thesis unfolding abs_less_iff by simp
  next
    assume c: "r = ''9:16''" "R = 9 / 16" "nominal_ratio r = 9 / 16"
    have "n - nominal_ratio r * H < 1 / 100 * H" "nominal_ratio r * H - n < 1 / 100 * H"
      "n - nominal_ratio r * H < nominal_ratio r / 100 * H"
      "nominal_ratio r * H - n < nominal_ratio r / 100 * H"
      using X n H unfolding c(2,3) by simp_all
    then show ?thesis unfolding abs_less_iff by simp
  next
    assume c: "r = ''16:9''" "R = 2001599834386887 / 1125899906842624" "nominal_ratio r = 16 / 9"
    have "n - nominal_ratio r * H < 1 / 100 * H" "nominal_ratio r * H - n < 1 / 100 * H"
      "n - nominal_ratio r * H < nominal_ratio r / 100 * H"
      "nominal_ratio r * H - n < nominal_ratio r / 100 * H"
      using X n H unfolding c(2,3) by simp_all
    then show ?thesis unfolding abs_less_iff by simp
  qed
  have H0: "0 < H" using H by simp
  show "\<bar>real_of_int nw / real_of_int h - nominal_ratio r\<bar> < 1 / 100"
    using ratio_abs_lt [OF H0 conjunct1 [OF both]] by (simp only: n_def H_def)
  show "\<bar>real_of_int nw / real_of_int h - nominal_ratio r\<bar> < nominal_ratio r / 100"
    using ratio_abs_lt [OF H0 conjunct2 [OF both]] by (simp only: n_def H_def)
qed

lemma tall_tolerance:
  assumes w: "0 < w" "w < 2 ^ 31"
    and R: "map_of ASPECT_RATIOS r = Some R"
    and nh: "nh = py_int (fdiv (float_of_int w) R)" "178 \<le> nh"
  shows "\<bar>real_of_int w / real_of_int nh - nominal_ratio r\<bar> < 1 / 100"
    and "\<bar>real_of_int w / real_of_int nh - nominal_ratio r\<bar> < nominal_ratio r / 100"
proof -
  have fw: "float_of_int w = of_int w" using w by (intro float_of_int_exact) simp
  define W where "W = real_of_int w"
  have W: "0 < W" using w(1) by (simp add: W_def)
  define X where "X = fl (W / R)"
  have p: "0 \<le> W / R" using W supported_pos [OF R] by simp
  have X: "W / R - W / R / 2 ^ 53 \<le> X" "X \<le> W / R + W / R / 2 ^ 53"
    unfolding X_def using fl_lower [OF p] fl_upper [OF p] by simp_all
  have X0: "0 \<le> X" unfolding X_def using p by (rule fl_nonneg)
  define n where "n = real_of_int nh"
  have n: "n \<le> X" "X < n + 1" "178 \<le> n"
    unfolding n_def nh(1) fdiv_def fw X_def W_def
    using py_int_floor_bounds [OF X0 [unfolded X_def W_def]] nh(2) [unfolded nh(1) fdiv_def fw]
    by simp_all
  have both: "\<bar>W - nominal_ratio r * n\<bar> < 1 / 100 * n \<and> \<bar>W - nominal_ratio r * n\<bar> < nominal_ratio r / 100 * n"
    using supported_nominal [OF R]
  proof (elim disjE conjE)
    assume c: "r = ''1:1''" "R = 1" "nominal_ratio r = 1"
    have "W - nominal_ratio r * n < 1 / 100 * n" "nominal_ratio r * n - W < 1 / 100 * n"
      "W - nominal_ratio r * n < nominal_ratio r / 100 * n"
      "nominal_ratio r * n - W < nominal_ratio r / 100 * n"
      using X n W unfolding c(2,3) by simp_all
    then show ?thesis unfolding abs_less_iff by simp
  next
    assume c: "r = ''9:16''" "R = 9 / 16" "nominal_ratio r = 9 / 16"
    have "W - nominal_ratio r * n < 1 / 100 * n" "nominal_ratio r * n - W < 1 / 100 * n"
      "W - nominal_ratio r * n < nominal_ratio r / 100 * n"
      "nominal_ratio r * n - W < nominal_ratio r / 100 * n"
      using X n W unfolding c(2,3) by simp_all
    then show ?thesis unfolding abs_less_iff by simp
  next
    assume c: "r = ''16:9''" "R = 2001599834386887 / 1125899906842624" "nominal_ratio r = 16 / 9"
    have "W - nominal_ratio r * n < 1 / 100 * n" "nominal_ratio r * n - W < 1 / 100 * n"
      "W - nominal_ratio r * n < nominal_ratio r / 100 * n"
      "nominal_ratio r * n - W < nominal_ratio r / 100 * n"
      using X n W unfolding c(2,3) by simp_all
    then show ?thesis unfolding abs_less_iff by simp
  qed
  have n0: "0 < n" using n(3) by simp
  show "\<bar>real_of_int w / real_of_int nh - nominal_ratio r\<bar> < 1 / 100"
    using ratio_abs_lt [OF n0 conjunct1 [OF both]] by (simp only: n_def W_def)
  show "\<bar>real_of_int w / real_of_int nh - nominal_ratio r\<bar> < nominal_ratio r / 100"
    using ratio_abs_lt [OF n0 conjunct2 [OF both]] by (simp only: n_def W_def)
qed

lemma create_variants_single:
  assumes "map_of ASPECT_RATIOS r = Some R" "smart_crop img R r = Inr out"
  shows "create_variants img (Some [r]) = Inr (Map.empty(r \<mapsto> out))"
  using assms by (simp add: create_variants_def)

text \<open>
  C3 (as amended). For a source image of positive width and height and a supported ratio
  \<open>R\<close>: if the source's width over height exceeds the nominal value of \<open>R\<close>, the crop
  keeps the full height and has width \<^verbatim>\<open>int(height * R)\<close>; otherwise it keeps the full
  width and has height \<^verbatim>\<open>int(width / R)\<close>. The returned image has that size, and its
  width over height is within 1% of the nominal value (both as an absolute difference
  below 0.01 and relative to the nominal value) whenever the crop is at least 178 pixels
  high. Sides are below \<open>2\<^sup>3\<^sup>1\<close>, as in every image the library holds.
\<close>

theorem smart_crop_size_and_ratio:
  assumes "im_size img = (w, h)" and "0 < w" and "w < 2 ^ 31" and "0 < h" and "h < 2 ^ 31"
    and "map_of ASPECT_RATIOS r = Some R"
  shows "\<exists>nw nh out.
           smart_crop_size w h R = Inr (nw, nh)
         \<and> create_variants img (Some [r]) = Inr (Map.empty(r \<mapsto> out))
         \<and> im_size out = (nw, nh)
         \<and> (nominal_ratio r < real_of_int w / real_of_int h \<longrightarrow>
                nw = py_int (fmul (float_of_int h) R) \<and> nh = h)
         \<and> (\<not> nominal_ratio r < real_of_int w / real_of_int h \<longrightarrow>
                nw = w \<and> nh = py_int (fdiv (float_of_int w) R))
         \<and> (178 \<le> nh \<longrightarrow>
                \<bar>real_of_int nw / real_of_int nh - nominal_ratio r\<bar> < 1 / 100
              \<and> \<bar>real_of_int nw / real_of_int nh - nominal_ratio r\<bar> < nominal_ratio r / 100)"
proof -
  have R0: "0 < R" using assms(6) by (rule supported_pos)
  have cmp: "(int_truediv w h > R) = (real_of_int w / real_of_int h > nominal_ratio r)"
    using assms(2,4,5,6) by (rule ratio_cmp)
  obtain nw nh where s: "smart_crop_size w h R = Inr (nw, nh)"
    using smart_crop_size_total [OF assms(4) R0] by blast
  have n: "0 \<le> nw" "0 \<le> nh"
    using smart_crop_size_nonneg [OF _ assms(4) R0 s] assms(2) by simp_all
  obtain left top' right bottom where b: "smart_crop_box w h nw nh r = (left, top', right, bottom)"
    by (metis prod_cases4)
  define out where "out = \<lparr>im_size = (nw, nh), im_mode = im_mode img,
          im_data = (\<lambda>x y. if in_image img (left + x) (top' + y)
                              then im_data img (left + x) (top' + y) else (0, 0, 0, 0))\<rparr>"
  have c: "smart_crop img R r = Inr out"
    unfolding out_def by (rule smart_crop_result [OF assms(1) s n b])
  have v: "create_variants img (Some [r]) = Inr (Map.empty(r \<mapsto> out))"
    using assms(6) c by (rule create_variants_single)
  have sz: "im_size out = (nw, nh)" by (simp add: out_def)
  have wide: "nw = py_int (fmul (float_of_int h) R) \<and> nh = h"
    if "nominal_ratio r < real_of_int w / real_of_int h"
  proof -
    have "smart_crop_size w h R = Inr (py_int (fmul (float_of_int h) R), h)"
      using that cmp by (simp add: smart_crop_size_cases [OF assms(4) R0])
    with s show ?thesis by auto
  qed
  have tall: "nw = w \<and> nh = py_int (fdiv (float_of_int w) R)"
    if "\<not> nominal_ratio r < real_of_int w / real_of_int h"
  proof -
    have "smart_crop_size w h R = Inr (w, py_int (fdiv (float_of_int w) R))"
      using that cmp by (simp add: smart_crop_size_cases [OF assms(4) R0])
    with s show ?thesis by auto
  qed
  have tol: "\<bar>real_of_int nw / real_of_int nh - nominal_ratio r\<bar> < 1 / 100
           \<and> \<bar>real_of_int nw / real_of_int nh - nominal_ratio r\<bar> < nominal_ratio r / 100"
    if big: "178 \<le> nh"
  proof (cases "nominal_ratio r < real_of_int w / real_of_int h")
    case True
    then have e: "nw = py_int (fmul (float_of_int h) R)" "nh = h" using wide by simp_all
    have "178 \<le> h" using big e(2) by simp
    then show ?thesis using wide_tolerance [OF _ assms(5,6) e(1)] e(2) by simp
  next
    case False
    then have e: "nw = w" "nh = py_int (fdiv (float_of_int w) R)" using tall by simp_all
    show ?thesis using tall_tolerance [OF assms(2,3,6) e(2) big] e(1) by simp
  qed
  show ?thesis using s v sz wide tall tol by blast
qed

lemma crop_size_1000_16_9:
  "smart_crop_size 1000 1000 (2001599834386887 / 1125899906842624) = Inr (1000, 562)"
  by (simp add: smart_crop_size_def Let_def) (simp add: fl_eval)

lemma lookup_16_9: "map_of ASPECT_RATIOS ''16:9'' = Some (2001599834386887 / 1125899906842624)"
  by (simp add: ASPECT_RATIOS_values)

lemma lookup_9_16: "map_of ASPECT_RATIOS ''9:16'' = Some (9 / 16)"
  by (simp add: ASPECT_RATIOS_values)

theorem smart_crop_size_and_ratio_witness:
  "im_size (new_image RGB (1000, 1000) (0, 0, 255, 255)) = (1000, 1000)
   \<and> (0::int) < 1000 \<and> (1000::int) < 2 ^ 31
   \<and> map_of ASPECT_RATIOS ''16:9'' = Some (2001599834386887 / 1125899906842624)
   \<and> smart_crop_size 1000 1000 (2001599834386887 / 1125899906842624) = Inr (1000, 562)
   \<and> (\<exists>out. create_variants (new_image RGB (1000, 1000) (0, 0, 255, 255)) (Some [''16:9''])
               = Inr (Map.empty(''16:9'' \<mapsto> out))
            \<and> im_size out = (1000, 562))
   \<and> \<bar>real_of_int 1000 / real_of_int 562 - nominal_ratio ''16:9''\<bar> < 1 / 100"
proof -
  have sz: "im_size (new_image RGB (1000, 1000) (0, 0, 255, 255)) = (1000, 1000)"
    by (simp add: new_image_def)
  have b: "(0::int) < 1000" "(1000::int) < 2 ^ 31" by simp_all
  from smart_crop_size_and_ratio [OF sz b b lookup_16_9]
  obtain nw nh out where o:
    "smart_crop_size 1000 1000 (2001599834386887 / 1125899906842624) = Inr (nw, nh)"
    "create_variants (new_image RGB (1000, 1000) (0, 0, 255, 255)) (Some [''16:9''])
       = Inr (Map.empty(''16:9'' \<mapsto> out))"
    "im_size out = (nw, nh)"
    "178 \<le> nh \<longrightarrow> \<bar>real_of_int nw / real_of_int nh - nominal_ratio ''16:9''\<bar> < 1 / 100
              \<and> \<bar>real_of_int nw / real_of_int nh - nominal_ratio ''16:9''\<bar> < nominal_ratio ''16:9'' / 100"
    by blast
  have e: "nw = 1000" "nh = 562" using o(1) crop_size_1000_16_9 by simp_all
  show ?thesis using sz b lookup_16_9 crop_size_1000_16_9 o(2-4) unfolding e by auto
qed

text \<open>
  As stated, without a lower bound on the size, the claim fails: truncation to whole pixels
  turns a 10 by 10 source into a 5 by 10 crop for \<^verbatim>\<open>9:16\<close>, a ratio of 0.5 against the
  nominal 0.5625.
\<close>

lemma crop_size_10_9_16: "smart_crop_size 10 10 (9 / 16) = Inr (5, 10)"
  by (simp add: smart_crop_size_def Let_def) (simp add: fl_eval)

theorem small_image_ratio_counterexample:
  "\<exists>out. create_variants (new_image RGB (10, 10) (0, 0, 255, 255)) (Some [''9:16''])
            = Inr (Map.empty(''9:16'' \<mapsto> out))
        \<and> im_size out = (5, 10)
        \<and> \<not> \<bar>real_of_int 5 / real_of_int 10 - nominal_ratio ''9:16''\<bar> \<le> nominal_ratio ''9:16'' / 100
        \<and> \<not> \<bar>real_of_int 5 / real_of_int 10 - nominal_ratio ''9:16''\<bar> \<le> 1 / 100"
proof -
  have sz: "im_size (new_image RGB (10, 10) (0, 0, 255, 255)) = (10, 10)"
    by (simp add: new_image_def)
  obtain left top' right bottom where
    b: "smart_crop_box 10 10 5 10 ''9:16'' = (left, top', right, bottom)"
    by (metis prod_cases4)
  define out where "out =
     \<lparr>im_size = (5, 10), im_mode = im_mode (new_image RGB (10, 10) (0, 0, 255, 255)),
      im_data = (\<lambda>x y. if in_image (new_image RGB (10, 10) (0, 0, 255, 255)) (left + x) (top' + y)
                          then im_data (new_image RGB (10, 10) (0, 0, 255, 255)) (left + x) (top' + y)
                          else (0, 0, 0, 0))\<rparr>"
  have "smart_crop (new_image RGB (10, 10) (0, 0, 255, 255)) (9 / 16) ''9:16'' = Inr out"
    unfolding out_def by (rule smart_crop_result [OF sz crop_size_10_9_16 _ _ b]) simp_all
  then have "create_variants (new_image RGB (10, 10) (0, 0, 255, 255)) (Some [''9:16'']) =
     Inr (Map.empty(''9:16'' \<mapsto> out))"
    by (rule create_variants_single [OF lookup_9_16])
  moreover have "im_size out = (5, 10)" by (simp add: out_def)
  moreover have "\<not> \<bar>real_of_int 5 / real_of_int 10 - nominal_ratio ''9:16''\<bar> \<le> nominal_ratio ''9:16'' / 100"
    "\<not> \<bar>real_of_int 5 / real_of_int 10 - nominal_ratio ''9:16''\<bar> \<le> 1 / 100"
    by (simp_all add: nominal_ratio_def)
  ultimately show ?thesis by blast
qed

subsection \<open>The crop box\<close>

text \<open>
  C4. For a source image of positive width and height and a supported ratio, the crop box
  that \<open>create_variants\<close> computes lies within the source: \<open>0 \<le> left\<close>,
  \<open>0 \<le> top\<close>, \<open>right = left + crop_width \<le> source_width\<close> and
  \<open>bottom = top + crop_height \<le> source_height\<close>. Hence every pixel of the returned image
  is read from the source, and the branch of the crop that fills what lies outside the
  source is never taken.
\<close>

theorem smart_crop_box_in_bounds:
  assumes "im_size img = (w, h)" and "0 < w" and "w < 2 ^ 31" and "0 < h" and "h < 2 ^ 31"
    and "map_of ASPECT_RATIOS r = Some R"
  shows "\<exists>nw nh left top' right bottom out.
           smart_crop_size w h R = Inr (nw, nh)
         \<and> smart_crop_box w h nw nh r = (left, top', right, bottom)
         \<and> 0 \<le> left \<and> 0 \<le> top' \<and> right = left + nw \<and> right \<le> w
         \<and> bottom = top' + nh \<and> bottom \<le> h
         \<and> create_variants img (Some [r]) = Inr (Map.empty(r \<mapsto> out))
         \<and> out = \<lparr>im_size = (nw, nh), im_mode = im_mode img,
                    im_data = (\<lambda>x y. if in_image img (left + x) (top' + y)
                                        then im_data img (left + x) (top' + y)
                                        else (0, 0, 0, 0))\<rparr>
         \<and> (\<forall>x y. in_image out x y \<longrightarrow>
                in_image img (left + x) (top' + y)
              \<and> im_data out x y = im_data img (left + x) (top' + y))"
proof -
  have R0: "0 < R" using assms(6) by (rule supported_pos)
  obtain nw nh where s: "smart_crop_size w h R = Inr (nw, nh)"
    using smart_crop_size_total [OF assms(4) R0] by blast
  have n: "0 \<le> nw" "nw \<le> w" "0 \<le> nh" "nh \<le> h"
    using smart_crop_size_within [OF assms(2-6) s] by simp_all
  obtain left top' right bottom where b: "smart_crop_box w h nw nh r = (left, top', right, bottom)"
    by (metis prod_cases4)
  have bx: "0 \<le> left" "0 \<le> top'" "right = left + nw" "right \<le> w"
      "bottom = top' + nh" "bottom \<le> h"
    using smart_crop_box_within [OF n assms(5) b] by simp_all
  define out where "out = \<lparr>im_size = (nw, nh), im_mode = im_mode img,
          im_data = (\<lambda>x y. if in_image img (left + x) (top' + y)
                              then im_data img (left + x) (top' + y) else (0, 0, 0, 0))\<rparr>"
  have c: "smart_crop img R r = Inr out"
    unfolding out_def by (rule smart_crop_result [OF assms(1) s n(1,3) b])
  have v: "create_variants img (Some [r]) = Inr (Map.empty(r \<mapsto> out))"
    using assms(6) c by (rule create_variants_single)
  have inb: "in_image img (left + x) (top' + y)" if "in_image out x y" for x y
    using that bx assms(1) by (simp add: in_image_def out_def)
  then have px: "\<forall>x y. in_image out x y \<longrightarrow>
                in_image img (left + x) (top' + y)
              \<and> im_data out x y = im_data img (left + x) (top' + y)"
    by (simp add: out_def)
  show ?thesis using s b bx v px out_def by blast
qed

lemma crop_size_1000_9_16: "smart_crop_size 1000 1000 (9 / 16) = Inr (562, 1000)"
  by (simp add: smart_crop_size_def Let_def) (simp add: fl_eval)

lemma crop_box_1000_9_16: "smart_crop_box 1000 1000 562 1000 ''9:16'' = (219, 0, 781, 1000)"
  by (simp add: smart_crop_box_def Let_def) (simp add: fl_eval)

theorem smart_crop_box_in_bounds_witness:
  "im_size (new_image RGB (1000, 1000) (0, 0, 255, 255)) = (1000, 1000)
   \<and> (0::int) < 1000 \<and> (1000::int) < 2 ^ 31
   \<and> map_of ASPECT_RATIOS ''9:16'' = Some (9 / 16)
   \<and> smart_crop_size 1000 1000 (9 / 16) = Inr (562, 1000)
   \<and> smart_crop_box 1000 1000 562 1000 ''9:16'' = (219, 0, 781, 1000)
   \<and> (\<exists>out. create_variants (new_image RGB (1000, 1000) (0, 0, 255, 255)) (Some [''9:16''])
               = Inr (Map.empty(''9:16'' \<mapsto> out))
            \<and> im_size out = (562, 1000)
            \<and> im_data out 0 0 = im_data (new_image RGB (1000, 1000) (0, 0, 255, 255)) 219 0)"
proof -
  have sz: "im_size (new_image RGB (1000, 1000) (0, 0, 255, 255)) = (1000, 1000)"
    by (simp add: new_image_def)
  have b: "(0::int) < 1000" "(1000::int) < 2 ^ 31" by simp_all
  from smart_crop_box_in_bounds [OF sz b b lookup_9_16]
  obtain nw nh left top' right bottom out where o:
    "smart_crop_size 1000 1000 (9 / 16) = Inr (nw, nh)"
    "smart_crop_box 1000 1000 nw nh ''9:16'' = (left, top', right, bottom)"
    "create_variants (new_image RGB (1000, 1000) (0, 0, 255, 255)) (Some [''9:16''])
       = Inr (Map.empty(''9:16'' \<mapsto> out))"
    "out = \<lparr>im_size = (nw, nh), im_mode = im_mode (new_image RGB (1000, 1000) (0, 0, 255, 255)),
            im_data = (\<lambda>x y. if in_image (new_image RGB (1000, 1000) (0, 0, 255, 255)) (left + x) (top' + y)
                                then im_data (new_image RGB (1000, 1000) (0, 0, 255, 255)) (left + x) (top' + y)
                                else (0, 0, 0, 0))\<rparr>"
    by blast
  have e: "nw = 562" "nh = 1000" using o(1) crop_size_1000_9_16 by simp_all
  have e2: "left = 219" "top' = 0" using o(2) crop_box_1000_9_16 unfolding e by simp_all
  have "im_size out = (562, 1000)" using o(4) e by simp
  moreover have "im_data out 0 0 = im_data (new_image RGB (1000, 1000) (0, 0, 255, 255)) 219 0"
    using o(4) e2 by (simp add: in_image_def new_image_def)
  ultimately show ?thesis
    using sz b lookup_9_16 crop_size_1000_9_16 crop_box_1000_9_16 o(3) by blast
qed

text \<open>
  C5. The anchor of the crop box: for \<^verbatim>\<open>9:16\<close> it is centred horizontally and its top
  is \<^verbatim>\<open>int((source_height - crop_height) * 0.3)\<close>; for \<^verbatim>\<open>1:1\<close>, \<^verbatim>\<open>16:9\<close> and any
  other ratio name it is centred on both axes, \<open>left = (source_width - crop_width) div 2\<close>
  and \<open>top = (source_height - crop_height) div 2\<close>. The box is the one the image is cropped
  to. For instance a 1000 by 2000 source is cropped for \<^verbatim>\<open>9:16\<close> to the rows from 66 on,
  not from the centred 111 on.
\<close>

theorem smart_crop_anchor:
  "smart_crop_box w h nw nh r =
     (if r = ''9:16'' then
        ((w - nw) div 2,
         py_int (fmul (float_of_int (h - nh)) (float_lit (3 / 10))),
         (w - nw) div 2 + nw,
         py_int (fmul (float_of_int (h - nh)) (float_lit (3 / 10))) + nh)
      else
        ((w - nw) div 2, (h - nh) div 2, (w - nw) div 2 + nw, (h - nh) div 2 + nh))
   \<and> smart_crop img R r =
       (case smart_crop_size (fst (im_size img)) (snd (im_size img)) R of
          Inl e \<Rightarrow> Inl e
        | Inr (nw', nh') \<Rightarrow>
            crop img (smart_crop_box (fst (im_size img)) (snd (im_size img)) nw' nh' r))
   \<and> smart_crop_size 1000 2000 (9 / 16) = Inr (1000, 1777)
   \<and> smart_crop_box 1000 2000 1000 1777 ''9:16'' = (0, 66, 1000, 1843)
   \<and> smart_crop_size 2000 1000 1 = Inr (1000, 1000)
   \<and> smart_crop_box 2000 1000 1000 1000 ''1:1'' = (500, 0, 1500, 1000)"
proof (intro conjI)
  show "smart_crop_size 1000 2000 (9 / 16) = Inr (1000, 1777)"
    by (simp add: smart_crop_size_def Let_def) (simp add: fl_eval)
  show "smart_crop_box 1000 2000 1000 1777 ''9:16'' = (0, 66, 1000, 1843)"
    by (simp add: smart_crop_box_def Let_def) (simp add: fl_eval)
  show "smart_crop_size 2000 1000 1 = Inr (1000, 1000)"
    by (simp add: smart_crop_size_def Let_def) (simp add: fl_eval)
  show "smart_crop_box 2000 1000 1000 1000 ''1:1'' = (500, 0, 1500, 1000)"
    by (simp add: smart_crop_box_def Let_def)
  show "smart_crop img R r =
       (case smart_crop_size (fst (im_size img)) (snd (im_size img)) R of
          Inl e \<Rightarrow> Inl e
        | Inr (nw', nh') \<Rightarrow>
            crop img (smart_crop_box (fst (im_size img)) (snd (im_size img)) nw' nh' r))"
    by (simp add: smart_crop_def case_prod_beta)
qed (simp add: smart_crop_box_eq Let_def)

subsection \<open>Font size\<close>

lemma calculate_font_size_mono:
  assumes "0 \<le> h1" "h1 \<le> h2"
  shows "calculate_font_size cfg w1 h1 \<le> calculate_font_size cfg w2 h2"
proof -
  define s where "s h = fdiv (float_of_int h) (float_lit 1000)" for h
  have s_mono: "s h1 \<le> s h2"
    unfolding s_def fdiv_def float_lit_1000
    by (intro fl_mono divide_right_mono float_of_int_mono assms) simp
  have s_nonneg: "0 \<le> s h1"
    unfolding s_def fdiv_def float_lit_1000
    by (intro fl_nonneg divide_nonneg_nonneg float_of_int_nonneg assms) simp
  define b where "b = float_of_int (base_font_size cfg)"
  have "py_int (fmul b (s h1)) \<le> py_int (fmul b (s h2)) \<or>
        (py_int (fmul b (s h1)) \<le> 0 \<and> py_int (fmul b (s h2)) \<le> 0)"
  proof (cases "0 \<le> b")
    case True
    then have "b * s h1 \<le> b * s h2" using s_mono by (rule mult_left_mono [rotated])
    then show ?thesis unfolding fmul_def by (intro disjI1 py_int_mono fl_mono)
  next
    case False
    then have "b * s h1 \<le> 0" "b * s h2 \<le> 0"
      using s_nonneg s_mono by (auto simp: mult_le_0_iff)
    then show ?thesis unfolding fmul_def by (intro disjI2 conjI py_int_nonpos fl_nonpos)
  qed
  then show ?thesis
    unfolding calculate_font_size_def Let_def s_def [symmetric] b_def [symmetric] by auto
qed

text \<open>
  C6. For every image width and every two image heights \<open>h1 \<le> h2\<close>, the font size is
  within \<open>[20, 120]\<close> for both, it is \<^verbatim>\<open>int(base_size * (height / 1000.0))\<close> clamped to
  that interval, and the size at \<open>h1\<close> is at most the size at \<open>h2\<close>, whatever the
  widths.
\<close>

theorem calculate_font_size_range_mono:
  assumes "0 \<le> h1" and "h1 \<le> h2"
  shows "20 \<le> calculate_font_size cfg w1 h1 \<and> calculate_font_size cfg w1 h1 \<le> 120
       \<and> 20 \<le> calculate_font_size cfg w2 h2 \<and> calculate_font_size cfg w2 h2 \<le> 120
       \<and> calculate_font_size cfg w1 h1 =
           max 20 (min (py_int (fmul (float_of_int (base_font_size cfg))
                                  (fdiv (float_of_int h1) (float_lit 1000)))) 120)
       \<and> calculate_font_size cfg w1 h1 \<le> calculate_font_size cfg w2 h2"
proof (intro conjI)
  show "calculate_font_size cfg w1 h1 \<le> calculate_font_size cfg w2 h2"
    using assms by (rule calculate_font_size_mono)
qed (simp_all add: calculate_font_size_def)

lemma font_size_500: "calculate_font_size default_compositor 1080 500 = 24"
  by (simp add: calculate_font_size_def default_compositor_def Let_def) (simp add: fl_eval)

lemma font_size_1000: "calculate_font_size default_compositor 1920 1000 = 48"
  by (simp add: calculate_font_size_def default_compositor_def Let_def) (simp add: fl_eval)

theorem calculate_font_size_range_mono_witness:
  "(0::int) \<le> 500 \<and> (500::int) \<le> 1000
   \<and> calculate_font_size default_compositor 1080 500 = 24
   \<and> calculate_font_size default_compositor 1920 1000 = 48
   \<and> calculate_font_size default_compositor 1080 500 \<le> calculate_font_size default_compositor 1920 1000"
proof -
  have h: "(0::int) \<le> 500" "(500::int) \<le> 1000" by simp_all
  show ?thesis
    using calculate_font_size_range_mono [OF h, of default_compositor 1080 1920] h
      font_size_500 font_size_1000 by simp
qed

subsection \<open>Contrast\<close>

text \<open>
  The brightness measured on the grey images, and the opacities the default base opacity
  0.6 leads to: \<^verbatim>\<open>0.6 + 0.3\<close> is the float below 0.9 and \<^verbatim>\<open>0.6 - 0.2\<close> the float below 0.4.
\<close>

lemma crop_grey4:
  "crop (grey4 g) (0, 0, 4, 4) =
     Inr \<lparr>im_size = (4, 4), im_mode = RGB,
          im_data = (\<lambda>x y. if in_image (grey4 g) x y then (g, g, g, 255) else (0, 0, 0, 0))\<rparr>"
  by (simp add: crop_def grey4_def new_image_def in_image_def fun_eq_iff)

lemma mean_grey4:
  "stat_mean (convert test_pil
       \<lparr>im_size = (4, 4), im_mode = RGB,
        im_data = (\<lambda>x y. if in_image (grey4 g) x y then (g, g, g, 255) else (0, 0, 0, 0))\<rparr> L)
     = Inr (fdiv (float_of_int (16 * g)) (float_of_int 16))"
  by (simp add: stat_mean_def convert_def test_pil_def convert_one_def luminance_def
      grey4_def new_image_def in_image_def Let_def upto_rec1)

lemma mean_values:
  "fdiv (float_of_int (16 * 255)) (float_of_int 16) = 255"
  "fdiv (float_of_int (16 * 150)) (float_of_int 16) = 150"
  "fdiv (float_of_int (16 * 90)) (float_of_int 16) = 90"
  "fdiv (float_of_int (16 * 30)) (float_of_int 16) = 30"
  by (simp_all add: fl_eval)

lemma opacity_values:
  "min (fadd (float_lit (6 / 10)) (float_lit (3 / 10))) (float_lit (9 / 10))
     = 8106479329266892 / 2 ^ 53"
  "min (fadd (float_lit (6 / 10)) (float_lit (15 / 100))) (float_lit (8 / 10)) = 3 / 4"
  "max (fsub (float_lit (6 / 10)) (float_lit (2 / 10))) (float_lit (3 / 10))
     = 7205759403792793 / 2 ^ 54"
  "float_lit (6 / 10) = 5404319552844595 / 2 ^ 53"
  by (simp_all add: fl_eval)


lemma grey4_region:
  "crop (grey4 g) (0, 0, 4, 4) = Inr region \<Longrightarrow>
   stat_mean (if im_mode region \<noteq> L then convert test_pil region L else region)
     = Inr (fdiv (float_of_int (16 * g)) (float_of_int 16))"
  using mean_grey4 [of g] by (auto simp: crop_grey4)

text \<open>
  C9. For every base opacity \<open>b\<close> (the compositor's \<open>background_opacity\<close>) and mean
  brightness \<open>v\<close> measured on the panel region, \<open>_ensure_contrast\<close> returns
  \<open>min (b + 0.30) 0.90\<close> when \<open>v > 180\<close>, \<open>min (b + 0.15) 0.80\<close> when
  \<open>120 < v \<le> 180\<close>, \<open>max (b - 0.20) 0.30\<close> when \<open>v < 60\<close>, and \<open>b\<close> unchanged when
  \<open>60 \<le> v \<le> 120\<close>; sums, differences and constants are the floats Python computes.
  That a brightness is measured means that the crop to the region and the mean over it
  return.
\<close>

theorem ensure_contrast_cases:
  assumes "crop img text_region = Inr region"
    and "stat_mean (if im_mode region \<noteq> L then convert env region L else region) = Inr v"
  shows "(180 < v \<longrightarrow> ensure_contrast env cfg img text_region =
            Inr (min (fadd (background_opacity cfg) (float_lit (3 / 10))) (float_lit (9 / 10))))
       \<and> (120 < v \<and> v \<le> 180 \<longrightarrow> ensure_contrast env cfg img text_region =
            Inr (min (fadd (background_opacity cfg) (float_lit (15 / 100))) (float_lit (8 / 10))))
       \<and> (v < 60 \<longrightarrow> ensure_contrast env cfg img text_region =
            Inr (max (fsub (background_opacity cfg) (float_lit (2 / 10))) (float_lit (3 / 10))))
       \<and> (60 \<le> v \<and> v \<le> 120 \<longrightarrow> ensure_contrast env cfg img text_region =
            Inr (background_opacity cfg))"
  using assms by (simp add: ensure_contrast_def Let_def)

text \<open>The four cases on grey levels 255, 150, 30 and 90, with the default compositor.\<close>

theorem ensure_contrast_cases_witness:
  "ensure_contrast test_pil default_compositor (grey4 255) (0, 0, 4, 4)
     = Inr (8106479329266892 / 2 ^ 53)
   \<and> ensure_contrast test_pil default_compositor (grey4 150) (0, 0, 4, 4) = Inr (3 / 4)
   \<and> ensure_contrast test_pil default_compositor (grey4 30) (0, 0, 4, 4)
     = Inr (7205759403792793 / 2 ^ 54)
   \<and> ensure_contrast test_pil default_compositor (grey4 90) (0, 0, 4, 4)
     = Inr (5404319552844595 / 2 ^ 53)"
proof -
  have b: "background_opacity default_compositor = float_lit (6 / 10)"
    by (simp add: default_compositor_def)
  note c = ensure_contrast_cases [OF crop_grey4 grey4_region [OF crop_grey4],
      of _ default_compositor]
  have r1: "ensure_contrast test_pil default_compositor (grey4 255) (0, 0, 4, 4) =
      Inr (min (fadd (float_lit (6 / 10)) (float_lit (3 / 10))) (float_lit (9 / 10)))"
    using c [of 255] unfolding mean_values b by simp
  have r2: "ensure_contrast test_pil default_compositor (grey4 150) (0, 0, 4, 4) =
      Inr (min (fadd (float_lit (6 / 10)) (float_lit (15 / 100))) (float_lit (8 / 10)))"
    using c [of 150] unfolding mean_values b by simp
  have r3: "ensure_contrast test_pil default_compositor (grey4 30) (0, 0, 4, 4) =
      Inr (max (fsub (float_lit (6 / 10)) (float_lit (2 / 10))) (float_lit (3 / 10)))"
    using c [of 30] unfolding mean_values b by simp
  have r4: "ensure_contrast test_pil default_compositor (grey4 90) (0, 0, 4, 4) =
      Inr (float_lit (6 / 10))"
    using c [of 90] unfolding mean_values b by simp
  show ?thesis
    unfolding r1 r2 r3 r4 unfolding opacity_values(1-3) unfolding opacity_values(4) by simp
qed

subsection \<open>Text overlays\<close>

text \<open>The layout written out: the copy is the new last buffer of the heap.\<close>

lemma overlay_layout_eq:
  "overlay_layout env cfg hp img txt position =
     (let pos = (case position of
                   None \<Rightarrow> text_position cfg
                 | Some p \<Rightarrow> if p \<noteq> [] then p else text_position cfg);
          img_width = fst (im_size (hp ! img));
          img_height = snd (im_size (hp ! img));
          fnt = load_font env cfg (calculate_font_size cfg img_width img_height);
          wrapped_text = wrap_text txt fnt (img_width - padding cfg * 2);
          b = multiline_textbbox fnt wrapped_text;
          text_width = fst (snd (snd b)) - fst b;
          text_height = snd (snd (snd b)) - fst (snd b)
      in (hp @ [hp ! img], length hp, (img_width, img_height), fnt, wrapped_text,
          (text_width, text_height),
          ((img_width - text_width) div 2, text_y_of cfg pos img_height text_height)))"
  by (simp add: overlay_layout_def alloc_def Let_def case_prod_beta nth_append)

lemma stat_mean_empty:
  assumes "snd (im_size im) \<le> 0"
  shows "stat_mean im = Inl ZeroDivisionError"
  using assms by (cases "im_size im") (simp add: stat_mean_def)

lemma ensure_contrast_empty:
  assumes "lower' \<le> upper"
  shows "\<exists>e. ensure_contrast env cfg im (left, upper, right, lower') = Inl e"
proof (cases "crop im (left, upper, right, lower')")
  case (Inl e)
  then show ?thesis by (simp add: ensure_contrast_def)
next
  case (Inr region)
  then have "snd (im_size region) \<le> 0"
    using assms by (auto simp: crop_def split: if_splits)
  then have "stat_mean (if im_mode region \<noteq> L then convert env region L else region)
      = Inl ZeroDivisionError"
    by (intro stat_mean_empty) (simp add: convert_def)
  then show ?thesis using Inr by (simp add: ensure_contrast_def Let_def)
qed

text \<open>
  Rendering only appends buffers to the heap: every buffer that was there keeps its
  content, and the result is a new buffer of the size of the copy. It returns when the
  panel is not inverted and the text colour is known.
\<close>

lemma rectangle_size:
  "rectangle im b fill = Inr drawn \<Longrightarrow> im_size drawn = im_size im \<and> im_mode drawn = im_mode im"
  by (cases b) (auto simp: rectangle_def split: if_splits)

lemma overlay_render_unfold:
  assumes "c < length hp"
  shows "overlay_render env cfg hp c fnt wrapped_text (text_width, text_height) (text_x, text_y) opacity =
    (let ov = new_image RGBA (im_size (hp ! c)) (0, 0, 0, 0);
         bx = (text_x - padding cfg, text_y - padding cfg,
               text_x + text_width + padding cfg, text_y + text_height + padding cfg);
         alpha = py_int (fmul opacity (float_of_int 255))
     in case rectangle ov bx (0, 0, 0, alpha) of
          Inl e \<Rightarrow> (hp @ [ov], Inl e)
        | Inr drawn \<Rightarrow>
            let src = (if im_mode (hp ! c) \<noteq> RGBA then convert env (hp ! c) RGBA else hp ! c);
                hp3 = (if im_mode (hp ! c) \<noteq> RGBA then hp @ [drawn, src] else hp @ [drawn])
            in case alpha_composite env src drawn of
                 Inl e \<Rightarrow> (hp3, Inl e)
               | Inr composed \<Rightarrow>
                   (case getrgb env (text_color cfg) of
                      None \<Rightarrow> (hp3 @ [composed],
                                Inl (ValueError (''unknown color specifier: '' @ text_color cfg)))
                    | Some fill \<Rightarrow>
                        (hp3 @ [multiline_text composed (text_x, text_y) wrapped_text fnt fill],
                         Inr (length hp3))))"
  using assms
  by (auto simp: overlay_render_def alloc_def Let_def nth_append list_update_append
           split: sum.splits option.splits)

lemma overlay_render_frame:
  assumes c: "c < length hp"
    and r: "overlay_render env cfg hp c fnt wrapped_text text_size text_xy opacity = (hp', res)"
  shows "length hp \<le> length hp' \<and> (\<forall>i < length hp. hp' ! i = hp ! i)
       \<and> (\<forall>out. res = Inr out \<longrightarrow>
             length hp \<le> out \<and> out < length hp' \<and> im_size (hp' ! out) = im_size (hp ! c))"
proof -
  obtain text_width text_height text_x text_y where
    ts: "text_size = (text_width, text_height)" and txy: "text_xy = (text_x, text_y)"
    by (cases text_size, cases text_xy) blast
  have sz: "im_size composed = im_size (hp ! c)"
    if "alpha_composite env
          (if im_mode (hp ! c) \<noteq> RGBA then convert env (hp ! c) RGBA else hp ! c) drawn
        = Inr composed" for drawn composed
    using that by (auto simp: alpha_composite_def convert_def split: if_splits)
  show ?thesis
    using r sz unfolding ts txy overlay_render_unfold [OF c]
    by (auto simp: Let_def nth_append multiline_text_def split: sum.splits option.splits if_splits)
qed

lemma overlay_render_returns:
  assumes c: "c < length hp"
    and pad: "0 \<le> text_width + 2 * padding cfg" "0 \<le> text_height + 2 * padding cfg"
    and col: "getrgb env (text_color cfg) = Some fill"
  shows "\<exists>hp' out. overlay_render env cfg hp c fnt wrapped_text (text_width, text_height)
            (text_x, text_y) opacity = (hp', Inr out)"
  using pad col unfolding overlay_render_unfold [OF c]
  by (auto simp: Let_def rectangle_def alpha_composite_def convert_def new_image_def
           split: sum.splits option.splits)

text \<open>
  Hence for both overlay functions: whatever the outcome, the input buffer is unchanged
  after the call, and a result is another buffer, of the input's width and height.
\<close>

lemma add_text_overlay_frame:
  assumes "img < length hp"
    and "add_text_overlay env cfg hp img txt position = (hp', res)"
  shows "hp' ! img = hp ! img
       \<and> (\<forall>out. res = Inr out \<longrightarrow>
             out \<noteq> img \<and> out < length hp' \<and> im_size (hp' ! out) = im_size (hp ! img))"
proof -
  obtain fnt wrapped_text text_size text_xy where
    r: "overlay_render env cfg (hp @ [hp ! img]) (length hp) fnt wrapped_text text_size text_xy
          (background_opacity cfg) = (hp', res)"
    using assms(2) by (simp add: add_text_overlay_def overlay_layout_eq Let_def)
  have c: "length hp < length (hp @ [hp ! img])" by simp
  from overlay_render_frame [OF c r]
  have f: "\<forall>i < length (hp @ [hp ! img]). hp' ! i = (hp @ [hp ! img]) ! i"
    and o: "\<forall>out. res = Inr out \<longrightarrow> length (hp @ [hp ! img]) \<le> out \<and> out < length hp'
              \<and> im_size (hp' ! out) = im_size ((hp @ [hp ! img]) ! length hp)"
    by blast+
  have "hp' ! img = hp ! img" using f assms(1) by (simp add: nth_append)
  moreover have "\<forall>out. res = Inr out \<longrightarrow>
      out \<noteq> img \<and> out < length hp' \<and> im_size (hp' ! out) = im_size (hp ! img)"
    using o assms(1) by auto
  ultimately show ?thesis by simp
qed

lemma overlay_layout_shape:
  "\<exists>W H fnt wrapped_text text_width text_height text_x text_y.
     overlay_layout env cfg hp img txt position =
       (hp @ [hp ! img], length hp, (W, H), fnt, wrapped_text,
        (text_width, text_height), (text_x, text_y))"
  by (simp add: overlay_layout_eq Let_def)

lemma add_text_overlay_with_contrast_frame:
  assumes "img < length hp"
    and "add_text_overlay_with_contrast env cfg hp img txt position = (hp', res)"
  shows "hp' ! img = hp ! img
       \<and> (\<forall>out. res = Inr out \<longrightarrow>
             out \<noteq> img \<and> out < length hp' \<and> im_size (hp' ! out) = im_size (hp ! img))"
proof -
  obtain W H fnt wrapped_text text_width text_height text_x text_y where
    lay: "overlay_layout env cfg hp img txt position =
       (hp @ [hp ! img], length hp, (W, H), fnt, wrapped_text,
        (text_width, text_height), (text_x, text_y))"
    using overlay_layout_shape [of env cfg hp img "txt" position] by (elim exE)
  define region where "region =
     (max 0 (text_x - padding cfg), max 0 (text_y - padding cfg),
      min W (text_x + text_width + padding cfg), min H (text_y + text_height + padding cfg))"
  show ?thesis
  proof (cases "ensure_contrast env cfg ((hp @ [hp ! img]) ! length hp) region")
    case (Inl e)
    then have "hp' = hp @ [hp ! img]" "res = Inl e"
      using assms(2) lay
      by (simp_all add: add_text_overlay_with_contrast_def Let_def region_def)
    then show ?thesis using assms(1) by (simp add: nth_append)
  next
    case (Inr opacity)
    then have r: "overlay_render env cfg (hp @ [hp ! img]) (length hp) fnt wrapped_text
        (text_width, text_height) (text_x, text_y) opacity = (hp', res)"
      using assms(2) lay
      by (simp add: add_text_overlay_with_contrast_def Let_def region_def)
    have c: "length hp < length (hp @ [hp ! img])" by simp
    from overlay_render_frame [OF c r]
    have f: "\<forall>i < length (hp @ [hp ! img]). hp' ! i = (hp @ [hp ! img]) ! i"
      and o: "\<forall>out. res = Inr out \<longrightarrow> length (hp @ [hp ! img]) \<le> out \<and> out < length hp'
                \<and> im_size (hp' ! out) = im_size ((hp @ [hp ! img]) ! length hp)"
      by blast+
    have "hp' ! img = hp ! img" using f assms(1) by (simp add: nth_append)
    moreover have "\<forall>out. res = Inr out \<longrightarrow>
        out \<noteq> img \<and> out < length hp' \<and> im_size (hp' ! out) = im_size (hp ! img)"
      using o assms(1) by auto
    ultimately show ?thesis by simp
  qed
qed

lemma font_size_16: "calculate_font_size default_compositor 16 16 = 20"
  by (simp add: calculate_font_size_def default_compositor_def Let_def) (simp add: fl_eval)

lemma load_font_test: "load_font test_pil default_compositor n = builtin_font"
  by (simp add: load_font_def test_pil_def common_fonts_def)

lemma wrap_hi: "wrap_text ''Hi'' builtin_font (- 24) = ''Hi''"
  by (simp add: wrap_text_def split_def is_space_def builtin_font_def Let_def)

lemma bbox_hi: "multiline_textbbox builtin_font ''Hi'' = (0, 0, 12, 11)"
  by (simp add: builtin_font_def block_size_def Let_def)

lemma layout_blue16:
  "overlay_layout test_pil default_compositor [blue16] 0 ''Hi'' None =
     ([blue16, blue16], 1, (16, 16), builtin_font, ''Hi'', (12, 11), (2, - 35))"
proof -
  have sz: "im_size blue16 = (16, 16)" by (simp add: blue16_def new_image_def)
  have p: "padding default_compositor = 20" "text_position default_compositor = ''bottom''"
    by (simp_all add: default_compositor_def)
  show ?thesis
    by (simp add: overlay_layout_eq Let_def sz p font_size_16 load_font_test wrap_hi bbox_hi
        text_y_of_def)
qed

lemma white_text: "getrgb test_pil (text_color default_compositor) = Some (255, 255, 255, 255)"
  by (simp add: test_pil_def default_compositor_def hex_color_def hex_rgb_def int16_def strip_def
      is_space_def hex_value_def lower_char_def ascii_uppercase_def ascii_lowercase_def Let_def)

lemma contrast_blue16:
  "ensure_contrast test_pil default_compositor blue16 (0, 0, 16, - 4) =
     Inl (ValueError (''Coordinate '' @ [CHR 0x27] @ ''lower'' @ [CHR 0x27] @
                      '' is less than '' @ [CHR 0x27] @ ''upper'' @ [CHR 0x27]))"
  by (simp add: ensure_contrast_def crop_def)

text \<open>
  C7. Both overlay operations are to return an image of the input's width and height and
  leave the input buffer unchanged. The frame part holds for both (the two lemmas above).
  The contrast-adaptive overlay, however, does not return on an image at most as high as
  the padding, with the text at the bottom: the brightness region is clamped to
  \<open>upper = max 0 (text_y - padding)\<close> and \<open>lower = min height (text_y + text_height + padding)
  = height - padding \<le> 0\<close>, an empty or inverted box, on which the crop or the mean raises.
  The plain overlay returns on the same input.
\<close>

theorem overlay_with_contrast_raises_on_low_image:
  assumes "img < length hp" and "snd (im_size (hp ! img)) \<le> padding cfg"
    and "0 \<le> padding cfg" and "text_position cfg = ''bottom''"
  shows "\<exists>e. add_text_overlay_with_contrast env cfg hp img txt None = (hp @ [hp ! img], Inl e)"
proof -
  obtain fnt wrapped_text text_width text_height text_x where
    lay: "overlay_layout env cfg hp img txt None =
      (hp @ [hp ! img], length hp, (fst (im_size (hp ! img)), snd (im_size (hp ! img))), fnt,
       wrapped_text, (text_width, text_height),
       (text_x, text_y_of cfg ''bottom'' (snd (im_size (hp ! img))) text_height))"
    using assms(4) by (simp add: overlay_layout_eq Let_def)
  define H where "H = snd (im_size (hp ! img))"
  define text_y where "text_y = text_y_of cfg ''bottom'' H text_height"
  have "text_y + text_height + padding cfg = H - padding cfg"
    by (simp add: text_y_def text_y_of_def)
  then have "min H (text_y + text_height + padding cfg) \<le> max 0 (text_y - padding cfg)"
    using assms(2,3) by (simp add: H_def)
  then obtain e where "ensure_contrast env cfg ((hp @ [hp ! img]) ! length hp)
      (max 0 (text_x - padding cfg), max 0 (text_y - padding cfg),
       min (fst (im_size (hp ! img))) (text_x + text_width + padding cfg),
       min H (text_y + text_height + padding cfg)) = Inl e"
    using ensure_contrast_empty by blast
  then show ?thesis
    using lay
    by (simp add: add_text_overlay_with_contrast_def Let_def H_def text_y_def case_prod_beta)
qed

text \<open>
  A 16 by 16 image with the default compositor (padding 20, text at the bottom): the
  contrast-adaptive overlay raises, the plain overlay returns a 16 by 16 image, and the
  input is unchanged.
\<close>

theorem overlay_with_contrast_raises_on_low_image_witness:
  "0 < length [blue16]
   \<and> snd (im_size ([blue16] ! 0)) \<le> padding default_compositor
   \<and> 0 \<le> padding default_compositor
   \<and> text_position default_compositor = ''bottom''
   \<and> add_text_overlay_with_contrast test_pil default_compositor [blue16] 0 ''Hi'' None =
       ([blue16, blue16],
        Inl (ValueError (''Coordinate '' @ [CHR 0x27] @ ''lower'' @ [CHR 0x27] @
                         '' is less than '' @ [CHR 0x27] @ ''upper'' @ [CHR 0x27])))
   \<and> (\<exists>hp' out. add_text_overlay test_pil default_compositor [blue16] 0 ''Hi'' None = (hp', Inr out)
          \<and> im_size (hp' ! out) = (16, 16) \<and> hp' ! 0 = blue16)"
proof -
  have h: "0 < length [blue16]" "snd (im_size ([blue16] ! 0)) \<le> padding default_compositor"
    "0 \<le> padding default_compositor" "text_position default_compositor = ''bottom''"
    by (simp_all add: blue16_def new_image_def default_compositor_def)
  from overlay_with_contrast_raises_on_low_image [OF h, of test_pil "''Hi''"]
  obtain e where e: "add_text_overlay_with_contrast test_pil default_compositor [blue16] 0 ''Hi'' None
      = ([blue16] @ [[blue16] ! 0], Inl e)"
    by blast
  have "add_text_overlay_with_contrast test_pil default_compositor [blue16] 0 ''Hi'' None =
       ([blue16, blue16],
        Inl (ValueError (''Coordinate '' @ [CHR 0x27] @ ''lower'' @ [CHR 0x27] @
                         '' is less than '' @ [CHR 0x27] @ ''upper'' @ [CHR 0x27])))"
  proof -
    have p: "padding default_compositor = 20" by (simp add: default_compositor_def)
    show ?thesis
      using contrast_blue16
      by (simp add: add_text_overlay_with_contrast_def layout_blue16 Let_def p)
  qed
  moreover have "\<exists>hp' out. add_text_overlay test_pil default_compositor [blue16] 0 ''Hi'' None = (hp', Inr out)
          \<and> im_size (hp' ! out) = (16, 16) \<and> hp' ! 0 = blue16"
  proof -
    have p: "(0::int) \<le> 12 + 2 * padding default_compositor" "(0::int) \<le> 11 + 2 * padding default_compositor"
      by (simp_all add: default_compositor_def)
    have c: "1 < length [blue16, blue16]" by simp
    obtain hp' out where r: "overlay_render test_pil default_compositor [blue16, blue16] 1
        builtin_font ''Hi'' (12, 11) (2, - 35) (background_opacity default_compositor) = (hp', Inr out)"
      using overlay_render_returns [OF c p white_text] by blast
    then have a: "add_text_overlay test_pil default_compositor [blue16] 0 ''Hi'' None = (hp', Inr out)"
      by (simp add: add_text_overlay_def layout_blue16)
    have "hp' ! 0 = [blue16] ! 0 \<and> im_size (hp' ! out) = im_size ([blue16] ! 0)"
      using add_text_overlay_frame [OF h(1) a] by simp
    then show ?thesis using a by (auto simp: blue16_def new_image_def)
  qed
  ultimately show ?thesis using h e by simp
qed
section \<open>Properties of the legal check\<close>

lemma boundary_opt:
  "is_word_boundary l r = (is_word_opt (last_opt l) \<noteq> is_word_opt (head_opt r))"
  by (cases r) (auto simp: is_word_boundary_def is_word_opt_def last_opt_def)

lemma re_match_literals:
  "re_match (re_escape lit @ [WordBoundary]) (last_opt l) s =
     (\<exists>post. s = lit @ post \<and> is_word_boundary (l @ lit) post)"
proof (induction lit arbitrary: l s)
  case Nil
  show ?case by (simp add: re_escape_def boundary_opt)
next
  case (Cons c lit)
  show ?case
  proof (cases s)
    case Nil
    then show ?thesis by (simp add: re_escape_def)
  next
    case (Cons d s')
    have "Some d = last_opt (l @ [d])" by (simp add: last_opt_def)
    then have "re_match (re_escape lit @ [WordBoundary]) (Some d) s' =
        (\<exists>post. s' = lit @ post \<and> is_word_boundary ((l @ [d]) @ lit) post)"
      using Cons.IH [of "l @ [d]" s'] by simp
    then show ?thesis using Cons by (auto simp: re_escape_def)
  qed
qed

lemma re_match_word_pattern:
  "re_match (word_pattern word) (last_opt l) s =
     (\<exists>post. s = lower word @ post \<and> is_word_boundary l s \<and>
        is_word_boundary (l @ lower word) post)"
  using re_match_literals [of "lower word" l s]
  by (auto simp: word_pattern_def boundary_opt)

lemma re_search_from_word_pattern:
  "re_search_from (word_pattern word) (last_opt l) s =
     (\<exists>pre post. s = pre @ lower word @ post \<and>
        is_word_boundary (l @ pre) (lower word @ post) \<and>
        is_word_boundary (l @ pre @ lower word) post)"
proof (induction s arbitrary: l)
  case Nil
  show ?case by (auto simp: re_match_word_pattern)
next
  case (Cons c s)
  have c: "Some c = last_opt (l @ [c])" by (simp add: last_opt_def)
  have here: "re_match (word_pattern word) (last_opt l) (c # s) =
      (\<exists>post. c # s = [] @ lower word @ post \<and>
         is_word_boundary (l @ []) (lower word @ post) \<and>
         is_word_boundary (l @ [] @ lower word) post)"
    by (auto simp: re_match_word_pattern)
  have later: "re_search_from (word_pattern word) (Some c) s =
      (\<exists>pre post. c # s = (c # pre) @ lower word @ post \<and>
         is_word_boundary (l @ c # pre) (lower word @ post) \<and>
         is_word_boundary (l @ (c # pre) @ lower word) post)"
    using Cons.IH [of "l @ [c]"] c by simp
  show ?case
  proof
    assume "re_search_from (word_pattern word) (last_opt l) (c # s)"
    then show "\<exists>pre post. c # s = pre @ lower word @ post \<and>
        is_word_boundary (l @ pre) (lower word @ post) \<and>
        is_word_boundary (l @ pre @ lower word) post"
      using here later by (metis re_search_from.simps(2))
  next
    assume "\<exists>pre post. c # s = pre @ lower word @ post \<and>
        is_word_boundary (l @ pre) (lower word @ post) \<and>
        is_word_boundary (l @ pre @ lower word) post"
    then obtain pre post where p: "c # s = pre @ lower word @ post"
        "is_word_boundary (l @ pre) (lower word @ post)"
        "is_word_boundary (l @ pre @ lower word) post"
      by blast
    show "re_search_from (word_pattern word) (last_opt l) (c # s)"
    proof (cases pre)
      case Nil
      with p have "re_match (word_pattern word) (last_opt l) (c # s)"
        unfolding here by (intro exI [of _ post]) simp
      then show ?thesis by simp
    next
      case (Cons d pre')
      with p have "re_search_from (word_pattern word) (Some c) s"
        unfolding later by (intro exI [of _ pre'] exI [of _ post]) simp
      then show ?thesis by simp
    qed
  qed
qed

lemma re_search_whole_word:
  "re_search (word_pattern word) (lower text) = whole_word_match word text"
  using re_search_from_word_pattern [of word "[]" "lower text"]
  by (simp add: re_search_def whole_word_match_def last_opt_def)

lemma scan_words_filter:
  "scan_words cfg (lower text) ws acc =
     acc @ map (violation_msg cfg) (filter (\<lambda>word. whole_word_match word text) ws)"
  by (induction ws arbitrary: acc) (simp_all add: re_search_whole_word)

lemma violations_legal:
  "violations (check_legal_compliance cfg text) =
     map (violation_msg cfg) (matched_words cfg text)"
  by (simp add: check_legal_compliance_def Let_def scan_words_filter matched_words_def)

lemma passed_legal:
  "passed (check_legal_compliance cfg text) = (matched_words cfg text = [])"
  by (simp add: check_legal_compliance_def Let_def scan_words_filter matched_words_def)

text \<open>
  C8. For every legal configuration and text, \<open>check_legal_compliance\<close> returns
  \<open>passed = True\<close> if and only if no configured prohibited term has a case-insensitive,
  word-boundary-anchored whole-word match in the text. In particular the term \<^verbatim>\<open>free\<close>
  is found in \<^verbatim>\<open>This is free\<close> but not in \<^verbatim>\<open>Freedom is important\<close>, and it is found
  in each of \<^verbatim>\<open>FREE\<close>, \<^verbatim>\<open>Free\<close> and \<^verbatim>\<open>free\<close>.
\<close>

theorem check_legal_compliance_passed_iff:
  "passed (check_legal_compliance cfg text) =
     (\<not> (\<exists>word \<in> set (prohibited_words cfg). whole_word_match word text))
   \<and> \<not> passed (check_legal_compliance
         \<lparr>prohibited_words = [''free''], severity_levels = Map.empty\<rparr> ''This is free'')
   \<and> passed (check_legal_compliance
         \<lparr>prohibited_words = [''free''], severity_levels = Map.empty\<rparr> ''Freedom is important'')
   \<and> \<not> passed (check_legal_compliance
         \<lparr>prohibited_words = [''free''], severity_levels = Map.empty\<rparr> ''FREE'')
   \<and> \<not> passed (check_legal_compliance
         \<lparr>prohibited_words = [''free''], severity_levels = Map.empty\<rparr> ''Free'')
   \<and> \<not> passed (check_legal_compliance
         \<lparr>prohibited_words = [''free''], severity_levels = Map.empty\<rparr> ''free'')"
proof (intro conjI)
  show "passed (check_legal_compliance cfg text) =
     (\<not> (\<exists>word \<in> set (prohibited_words cfg). whole_word_match word text))"
    by (auto simp: passed_legal matched_words_def filter_empty_conv)
qed code_simp+

text \<open>
  C10. Each configured prohibited term contributes at most one violation message, however
  often it occurs in the text: the violations are the messages of the matched terms, one
  each, in configuration order, so there are at most as many as configured terms. A text
  that repeats \<^verbatim>\<open>free\<close> three times yields one message.
\<close>

theorem check_legal_compliance_one_violation_per_term:
  "violations (check_legal_compliance cfg text) =
     map (violation_msg cfg)
       (filter (\<lambda>word. whole_word_match word text) (prohibited_words cfg))
   \<and> length (violations (check_legal_compliance cfg text)) \<le> length (prohibited_words cfg)
   \<and> violations (check_legal_compliance
         \<lparr>prohibited_words = [''free''], severity_levels = Map.empty\<rparr> ''free, free, free'') =
       [''Prohibited word '' @ [CHR 0x27] @ ''free'' @ [CHR 0x27] @
        '' found (severity: warning)'']"
proof (intro conjI)
  show "violations (check_legal_compliance cfg text) =
     map (violation_msg cfg)
       (filter (\<lambda>word. whole_word_match word text) (prohibited_words cfg))"
    by (simp add: violations_legal matched_words_def)
  show "length (violations (check_legal_compliance cfg text)) \<le> length (prohibited_words cfg)"
    by (simp add: violations_legal matched_words_def)
  show "violations (check_legal_compliance
         \<lparr>prohibited_words = [''free''], severity_levels = Map.empty\<rparr> ''free, free, free'') =
       [''Prohibited word '' @ [CHR 0x27] @ ''free'' @ [CHR 0x27] @
        '' found (severity: warning)'']"
    by code_simp
qed

section \<open>Properties of the brand check\<close>

text \<open>A configured path to a file that does not exist loads no template and detects no logo.\<close>

lemma load_missing:
  assumes "path_configured cfg" "fs (the (logo_template_path cfg)) = Missing" "logo_template cfg = None"
  shows "load_logo_template vis fs cfg = (cfg, Inr None)"
  using assms by (simp add: load_logo_template_def)

lemma detect_missing:
  assumes "path_configured cfg" "fs (the (logo_template_path cfg)) = Missing" "logo_template cfg = None"
  shows "detect_logo vis fs cfg img = (cfg, Inr False)"
  using assms by (simp add: detect_logo_def load_missing)

text \<open>
  C1 (as the code has it). For every brand configuration whose logo path is set and whose
  file is absent, \<open>check_brand_compliance\<close> does not skip the logo check: no logo is
  detected, and because the check is gated on the path being set, not on the template
  having loaded, the result has the violation \<^verbatim>\<open>Brand logo not detected in image\<close> first,
  details starting with \<^verbatim>\<open>Logo detection failed\<close> and \<open>passed = False\<close>. Without brand
  colours that is the whole result; with brand colours the colour check follows and can
  only add to it (or raise on a malformed colour).
\<close>

theorem missing_logo_fails_check:
  assumes "logo_template_path cfg = Some p" and "p \<noteq> []" and "fs p = Missing"
    and "logo_template cfg = None"
  shows "detect_logo vis fs cfg img = (cfg, Inr False)
       \<and> fst (check_brand_compliance vis fs cfg img) = cfg
       \<and> (case snd (check_brand_compliance vis fs cfg img) of
             Inl e \<Rightarrow> brand_colors cfg \<noteq> []
           | Inr res \<Rightarrow>
               \<not> passed res
             \<and> hd (violations res) = ''Brand logo not detected in image''
             \<and> take 21 (details res) = ''Logo detection failed'')
       \<and> (brand_colors cfg = [] \<longrightarrow>
             check_brand_compliance vis fs cfg img =
               (cfg, Inr \<lparr>passed = False, details = ''Logo detection failed'',
                          violations = [''Brand logo not detected in image'']\<rparr>))"
proof -
  have pc: "path_configured cfg" using assms(1,2) by (simp add: path_configured_def)
  have ms: "fs (the (logo_template_path cfg)) = Missing" using assms(1,3) by simp
  have d: "detect_logo vis fs cfg img = (cfg, Inr False)"
    using pc ms assms(4) by (rule detect_missing)
  show ?thesis
    using d pc
    by (auto simp: check_brand_compliance_def Let_def split: sum.splits bool.splits)
qed

theorem missing_logo_fails_check_witness:
  "logo_template_path missing_logo_config = Some ''/nonexistent/logo.png''
   \<and> ''/nonexistent/logo.png'' \<noteq> []
   \<and> empty_disk ''/nonexistent/logo.png'' = Missing
   \<and> logo_template missing_logo_config = None
   \<and> detect_logo test_vision empty_disk missing_logo_config red100 = (missing_logo_config, Inr False)
   \<and> check_brand_compliance test_vision empty_disk missing_logo_config red100 =
       (missing_logo_config,
        Inr \<lparr>passed = False, details = ''Logo detection failed'',
             violations = [''Brand logo not detected in image'']\<rparr>)"
proof -
  have h: "logo_template_path missing_logo_config = Some ''/nonexistent/logo.png''"
    "''/nonexistent/logo.png'' \<noteq> []"
    "empty_disk ''/nonexistent/logo.png'' = Missing"
    "logo_template missing_logo_config = None"
    by (simp_all add: missing_logo_config_def empty_disk_def)
  have c: "brand_colors missing_logo_config = []" by (simp add: missing_logo_config_def)
  show ?thesis
    using missing_logo_fails_check [of missing_logo_config "''/nonexistent/logo.png''" empty_disk test_vision red100] h c
    by simp
qed

text \<open>
  The claim as stated fails: with the path set and the file absent the check fails with a
  violation, where the same configuration without a path passes with no check configured.
\<close>

theorem missing_logo_not_skipped_counterexample:
  "check_brand_compliance test_vision empty_disk missing_logo_config red100 =
     (missing_logo_config,
      Inr \<lparr>passed = False, details = ''Logo detection failed'',
           violations = [''Brand logo not detected in image'']\<rparr>)
   \<and> check_brand_compliance test_vision empty_disk
         (missing_logo_config\<lparr>logo_template_path := None\<rparr>) red100 =
     (missing_logo_config\<lparr>logo_template_path := None\<rparr>,
      Inr \<lparr>passed = True, details = ''No brand compliance checks configured'',
           violations = []\<rparr>)"
  by (simp add: check_brand_compliance_def detect_logo_def load_logo_template_def
      path_configured_def missing_logo_config_def empty_disk_def Let_def)


end
